theory Spec2Isabelle
  imports Complex_Main
begin

section \<open>The app-aware touchscreen device\<close>

text \<open>
  A shallow embedding of \<^verbatim>\<open>src/systems/userinput/devices/app-aware-touchscreen.js\<close>:
  the class \<^verbatim>\<open>AppAwareTouchscreenDevice\<close> with its methods \<^verbatim>\<open>start\<close>, \<^verbatim>\<open>move\<close>,
  \<^verbatim>\<open>end\<close>, \<^verbatim>\<open>processTouchStart\<close>, \<^verbatim>\<open>process\<close> and \<^verbatim>\<open>write\<close>.

  Conventions of the embedding.
  \<^item> JavaScript numbers are modelled by the reals: rounding of doubles is not modelled.
  \<^item> The fields of the device object are the fields of the record \<open>state\<close>; every method
    takes the state and returns the state it leaves behind.
  \<^item> An uncaught \<^verbatim>\<open>TypeError\<close> (a property read on \<^verbatim>\<open>undefined\<close>) ends the running
    call; the outcome \<open>Stop\<close> carries the error and the state the device is left in,
    with the mutations done before the throw.
  \<^item> The browser and the scene (hit tests, the clock, the window size, the table of
    output paths) are the record \<open>env\<close>, read by the call that is running.
  \<^item> \<^verbatim>\<open>setTimeout\<close> callbacks are data in the state: the one-shot 150 ms timer of the
    buffered first touch and the queue of zero-delay re-dispatches.
\<close>

subsection \<open>Touches, jobs and assignments\<close>

datatype job = MOVE_CURSOR_JOB | MOVE_CAMERA_JOB | FIRST_PINCHER_JOB | SECOND_PINCHER_JOB

text \<open>
  A platform touch: its \<^verbatim>\<open>identifier\<close>, its coordinates and the first class of its
  target element (\<^verbatim>\<open>touch.target.classList[0]\<close>, \<open>None\<close> when the list is empty).
\<close>

record touch =
  ident :: int
  clientX :: real
  clientY :: real
  targetClass :: "string option"

text \<open>
  The pose held by a cursor assignment is computed by the external
  \<^verbatim>\<open>Pose.fromCameraProjection\<close>; the model keeps the two normalised screen coordinates
  handed to it.
\<close>

datatype pose = FromCameraProjection real real

text \<open>
  An assignment object. \<^verbatim>\<open>assign\<close> creates it with \<^verbatim>\<open>job\<close> and \<^verbatim>\<open>touch\<close> only; the
  other properties are \<^verbatim>\<open>undefined\<close> (\<open>None\<close>) until the device writes them.
\<close>

record assignment =
  job :: job
  touch :: touch
  aClientX :: "real option"
  aClientY :: "real option"
  aDelta :: "(real \<times> real) option"
  cursorPose :: "pose option"
  isFirstFrame :: "bool option"

record pinch =
  initialDistance :: real
  currentDistance :: real
  delta :: real

text \<open>
  \<^verbatim>\<open>pendingTap\<close> starts as \<^verbatim>\<open>{ maxTouchCount: 0, startedAt: 0 }\<close> and is reset to
  \<^verbatim>\<open>{ maxTouchCount: 0 }\<close>, which leaves \<^verbatim>\<open>startedAt\<close> undefined.
\<close>

record pendingTap =
  maxTouchCount :: nat
  startedAt :: "real option"

datatype event_type = touchstart | touchend | touchmove | touchcancel

record event =
  etype :: event_type
  changedTouches :: "touch list"
  touches :: "touch list"

text \<open>A zero-delay \<^verbatim>\<open>setTimeout\<close> callback waiting to run.\<close>

datatype timeout = EndLater touch | MoveLater touch

datatype log = Warn string | Error string

text \<open>
  \<open>TypeError x\<close>: the variable \<open>x\<close> was \<^verbatim>\<open>undefined\<close> where a property of it was read or
  written. \<open>NotANumber x\<close>: an unset coordinate \<open>x\<close> entered an arithmetic expression; the
  source would go on with \<^verbatim>\<open>NaN\<close>, which the reals do not have, so the model ends the call
  there (theorem \<open>run_never_stops_on_fields\<close> below shows that no state built by the device
  itself gets there).
\<close>

datatype error = TypeError string | NotANumber string

record state =
  assignments :: "assignment list"
  pinch :: pinch
  pendingTap :: pendingTap
  tapIndexToWriteNextFrame :: nat
  events :: "event list"
  pendingFirstTouch :: "touch option"
  firstTouchTimeout :: bool
  timeouts :: "timeout list"
  console :: "log list"

datatype outcome = Ok state | Stop error state

text \<open>The element hit by the ray through a touch, as far as the device asks about it.\<close>

record element =
  matches_ui :: bool
  matches_interactable :: bool

text \<open>
  What a running call reads from outside the device. \<open>tapPath n\<close> tells whether the
  table \<^verbatim>\<open>paths.device.touchscreen\<close> (file \<^verbatim>\<open>../paths\<close>, not part of the sources at hand)
  has an entry \<^verbatim>\<open>tap\<close>\<open>n\<close>.
\<close>

record env =
  getTouchIntersection :: "touch \<Rightarrow> element option"
  isCursorGrabbing :: bool
  now :: real
  innerWidth :: real
  innerHeight :: real
  tapPath :: "nat \<Rightarrow> bool"

text \<open>What one call of \<^verbatim>\<open>write\<close> stores in the frame; \<open>None\<close>: the path is not written.\<close>

record frame =
  frame_isTouching :: "bool option"
  frame_cursorPose :: "pose option"
  frame_isTouchingGrabbable :: "bool option"
  frame_touchCameraDelta :: "(real \<times> real) option"
  frame_pinch_delta :: real
  frame_pinch_initialDistance :: real
  frame_pinch_currentDistance :: real
  frame_tap :: "nat option"

datatype written = Written frame state | Aborted error state

subsection \<open>The assignment table\<close>

text \<open>
  Modelled from the spec: the helpers of \<^verbatim>\<open>./touchscreen/assignments\<close> (\<^verbatim>\<open>touchIsAssigned\<close>,
  \<^verbatim>\<open>jobIsAssigned\<close>, \<^verbatim>\<open>findByJob\<close>, \<^verbatim>\<open>findByTouch\<close>, \<^verbatim>\<open>assign\<close>, \<^verbatim>\<open>unassign\<close>) are imported by
  the device but their file is not among the sources. Section 4.1 of the specification:
  the four lookups are pure; \<^verbatim>\<open>assign(touch, job)\<close> creates and returns a new assignment
  and fails, returning nothing, when the touch or the job already has an assignment;
  \<^verbatim>\<open>unassign(touch, job)\<close> removes the matching entry. The table is an ordered
  collection: a new assignment goes to the end, a lookup returns the first match.
\<close>

definition findByTouch :: "touch \<Rightarrow> assignment list \<Rightarrow> assignment option" where
  "findByTouch t as = find (\<lambda>a. ident (touch a) = ident t) as"

definition findByJob :: "job \<Rightarrow> assignment list \<Rightarrow> assignment option" where
  "findByJob j as = find (\<lambda>a. job a = j) as"

definition touchIsAssigned :: "touch \<Rightarrow> assignment list \<Rightarrow> bool" where
  "touchIsAssigned t as = (findByTouch t as \<noteq> None)"

definition jobIsAssigned :: "job \<Rightarrow> assignment list \<Rightarrow> bool" where
  "jobIsAssigned j as = (findByJob j as \<noteq> None)"

definition newAssignment :: "touch \<Rightarrow> job \<Rightarrow> assignment" where
  "newAssignment t j =
     \<lparr>job = j, touch = t, aClientX = None, aClientY = None, aDelta = None,
      cursorPose = None, isFirstFrame = None\<rparr>"

text \<open>
  \<open>assign\<close> returns the table with the new object at its end, or \<open>None\<close> for the
  \<^verbatim>\<open>undefined\<close> of a refused call, which leaves the table as it was. The object
  returned by the source is that last element: the caller's writes to it are
  \<open>modify_last\<close>.
\<close>

definition assign :: "touch \<Rightarrow> job \<Rightarrow> assignment list \<Rightarrow> assignment list option" where
  "assign t j as =
     (if touchIsAssigned t as \<or> jobIsAssigned j as then None
      else Some (as @ [newAssignment t j]))"

fun unassign :: "touch \<Rightarrow> job \<Rightarrow> assignment list \<Rightarrow> assignment list" where
  "unassign t j [] = []"
| "unassign t j (a # as) =
     (if ident (touch a) = ident t \<and> job a = j then as else a # unassign t j as)"

fun modify_last :: "('a \<Rightarrow> 'a) \<Rightarrow> 'a list \<Rightarrow> 'a list" where
  "modify_last f [] = []"
| "modify_last f [x] = [f x]"
| "modify_last f (x # y # xs) = x # modify_last f (y # xs)"

text \<open>
  A write through the reference returned by \<^verbatim>\<open>findByTouch\<close> or \<^verbatim>\<open>findByJob\<close> changes the
  first element of the table that satisfies the lookup's test.
\<close>

fun modify_first :: "('a \<Rightarrow> bool) \<Rightarrow> ('a \<Rightarrow> 'a) \<Rightarrow> 'a list \<Rightarrow> 'a list" where
  "modify_first P f [] = []"
| "modify_first P f (x # xs) = (if P x then f x # xs else x # modify_first P f xs)"

subsection \<open>Helpers of the device\<close>

definition distance :: "real \<Rightarrow> real \<Rightarrow> real \<Rightarrow> real \<Rightarrow> real" where
  "distance x1 y1 x2 y2 = (let dx = x1 - x2; dy = y1 - y2 in sqrt (dx * dx + dy * dy))"

text \<open>The distance between the stored coordinates of two assignments, when all are set.\<close>

definition distanceBetween :: "assignment \<Rightarrow> assignment \<Rightarrow> real option" where
  "distanceBetween first second =
     (case (aClientX first, aClientY first, aClientX second, aClientY second) of
        (Some x1, Some y1, Some x2, Some y2) \<Rightarrow> Some (distance x1 y1 x2 y2)
      | _ \<Rightarrow> None)"

definition isCursorOverInteractable :: "env \<Rightarrow> touch \<Rightarrow> bool" where
  "isCursorOverInteractable w t =
     (if isCursorGrabbing w then True
      else case getTouchIntersection w t of
             None \<Rightarrow> False
           | Some el \<Rightarrow> matches_interactable el)"

definition shouldDelayStartTouch :: "env \<Rightarrow> touch \<Rightarrow> bool" where
  "shouldDelayStartTouch w t =
     (case getTouchIntersection w t of None \<Rightarrow> True | Some el \<Rightarrow> \<not> matches_ui el)"

definition projectTouch :: "env \<Rightarrow> touch \<Rightarrow> pose" where
  "projectTouch w t =
     FromCameraProjection (clientX t / innerWidth w * 2 - 1)
                          (- (clientY t / innerHeight w) * 2 + 1)"

definition zeroPinch :: pinch where
  "zeroPinch = \<lparr>initialDistance = 0, currentDistance = 0, delta = 0\<rparr>"

definition initial :: state where
  "initial =
     \<lparr>assignments = [], pinch = zeroPinch,
      pendingTap = \<lparr>maxTouchCount = 0, startedAt = Some 0\<rparr>,
      tapIndexToWriteNextFrame = 0, events = [], pendingFirstTouch = None,
      firstTouchTimeout = False, timeouts = [], console = []\<rparr>"

definition logged :: "log \<Rightarrow> state \<Rightarrow> state" where
  "logged m s = s\<lparr>console := console s @ [m]\<rparr>"

definition clearPendingFirstTouch :: "state \<Rightarrow> state" where
  "clearPendingFirstTouch s = s\<lparr>pendingFirstTouch := None, firstTouchTimeout := False\<rparr>"

text \<open>Sequencing: the rest of a method runs only if no exception was thrown.\<close>

definition andThen :: "outcome \<Rightarrow> (state \<Rightarrow> outcome) \<Rightarrow> outcome" where
  "andThen r f = (case r of Ok s \<Rightarrow> f s | Stop e s \<Rightarrow> Stop e s)"

subsection \<open>processTouchStart\<close>

text \<open>Lines 275-279: the bookkeeping of the pending tap.\<close>

definition updatePendingTap :: "env \<Rightarrow> state \<Rightarrow> state" where
  "updatePendingTap w s =
     (let n = length (assignments s);
          pt = pendingTap s;
          pt1 = (if maxTouchCount pt = 0 \<and> n > 0 then pt\<lparr>startedAt := Some (now w)\<rparr> else pt)
      in s\<lparr>pendingTap := pt1\<lparr>maxTouchCount := max (maxTouchCount pt1) n\<rparr>\<rparr>)"

text \<open>
  Lines 249-259: \<^verbatim>\<open>first\<close> is the first pincher if there is one, else the camera mover
  is turned into the first pincher. Returns the object \<^verbatim>\<open>first\<close> as it is after the
  writes to it, and the state.
\<close>

definition takeFirstPincher :: "state \<Rightarrow> (error \<times> state) + (assignment \<times> state)" where
  "takeFirstPincher s =
     (case findByJob FIRST_PINCHER_JOB (assignments s) of
        Some first \<Rightarrow> Inr (first, s)
      | None \<Rightarrow>
          (case findByJob MOVE_CAMERA_JOB (assignments s) of
             None \<Rightarrow> Inl (TypeError ''cameraMover'', s)
           | Some cameraMover \<Rightarrow>
               (let as1 = unassign (touch cameraMover) (job cameraMover) (assignments s) in
                case assign (touch cameraMover) FIRST_PINCHER_JOB as1 of
                  None \<Rightarrow> Inl (TypeError ''first'', s\<lparr>assignments := as1\<rparr>)
                | Some as2 \<Rightarrow>
                    (let first = (newAssignment (touch cameraMover) FIRST_PINCHER_JOB)
                                   \<lparr>aClientX := aClientX cameraMover,
                                    aClientY := aClientY cameraMover\<rparr>
                     in Inr (first,
                             s\<lparr>assignments :=
                                 modify_last (\<lambda>a. a\<lparr>aClientX := aClientX cameraMover,
                                                     aClientY := aClientY cameraMover\<rparr>)
                                             as2\<rparr>)))))"

text \<open>Lines 248-270: the branch that makes the new touch the second pincher.\<close>

definition assignSecondPincher :: "touch \<Rightarrow> state \<Rightarrow> outcome" where
  "assignSecondPincher t s =
     (case takeFirstPincher s of
        Inl (e, s1) \<Rightarrow> Stop e s1
      | Inr (first, s1) \<Rightarrow>
          (case assign t SECOND_PINCHER_JOB (assignments s1) of
             None \<Rightarrow> Stop (TypeError ''second'') s1
           | Some as3 \<Rightarrow>
               (let second = (newAssignment t SECOND_PINCHER_JOB)
                                \<lparr>aClientX := Some (clientX t), aClientY := Some (clientY t)\<rparr>;
                    s2 = s1\<lparr>assignments :=
                              modify_last (\<lambda>a. a\<lparr>aClientX := Some (clientX t),
                                                  aClientY := Some (clientY t)\<rparr>) as3\<rparr>
                in case distanceBetween first second of
                     None \<Rightarrow> Stop (NotANumber ''first.clientX'') s2
                   | Some d \<Rightarrow>
                       Ok (s2\<lparr>pinch := \<lparr>initialDistance = d, currentDistance = d,
                                        delta = 0\<rparr>\<rparr>))))"

text \<open>Lines 229-273: the priority policy that gives the new touch its job.\<close>

definition resolveJob :: "env \<Rightarrow> touch \<Rightarrow> bool \<Rightarrow> state \<Rightarrow> outcome" where
  "resolveJob w t allowMoveToNonInteractable s =
     (let hasFirstPinch = jobIsAssigned FIRST_PINCHER_JOB (assignments s) in
      if \<not> hasFirstPinch \<and> \<not> jobIsAssigned MOVE_CURSOR_JOB (assignments s) \<and>
         (allowMoveToNonInteractable \<or> isCursorOverInteractable w t)
      then (case assign t MOVE_CURSOR_JOB (assignments s) of
              None \<Rightarrow> Stop (TypeError ''assignment'') s
            | Some as1 \<Rightarrow>
                Ok (s\<lparr>assignments :=
                        modify_last (\<lambda>a. a\<lparr>cursorPose := Some (projectTouch w t),
                                            isFirstFrame := Some True\<rparr>) as1\<rparr>))
      else if \<not> hasFirstPinch \<and> \<not> jobIsAssigned MOVE_CAMERA_JOB (assignments s)
      then (case assign t MOVE_CAMERA_JOB (assignments s) of
              None \<Rightarrow> Stop (TypeError ''assignment'') s
            | Some as1 \<Rightarrow>
                Ok (s\<lparr>assignments :=
                        modify_last (\<lambda>a. a\<lparr>aClientX := Some (clientX t),
                                            aClientY := Some (clientY t),
                                            aDelta := Some (0, 0)\<rparr>) as1\<rparr>))
      else if \<not> jobIsAssigned SECOND_PINCHER_JOB (assignments s)
      then assignSecondPincher t s
      else Ok (logged (Warn ''no job suitable for touch'') s))"

definition processTouchStart :: "env \<Rightarrow> touch \<Rightarrow> bool \<Rightarrow> state \<Rightarrow> outcome" where
  "processTouchStart w t allowMoveToNonInteractable s =
     (if touchIsAssigned t (assignments s)
      then Ok (logged (Error ''touch already has a job'') s)
      else andThen (resolveJob w t allowMoveToNonInteractable s)
                   (\<lambda>s1. Ok (updatePendingTap w s1)))"

subsection \<open>end\<close>

text \<open>
  Lines 98-117: the first pincher lifts. \<open>a\<close> is its assignment.
\<close>

definition endFirstPincher :: "assignment \<Rightarrow> state \<Rightarrow> outcome" where
  "endFirstPincher a s =
     (let as1 = unassign (touch a) (job a) (assignments s);
          s1 = s\<lparr>assignments := as1, pinch := zeroPinch\<rparr>
      in case findByJob SECOND_PINCHER_JOB as1 of
           None \<Rightarrow> Ok s1
         | Some second \<Rightarrow>
             (let as2 = unassign (touch second) (job second) as1;
                  s2 = s1\<lparr>assignments := as2\<rparr>
              in if jobIsAssigned MOVE_CAMERA_JOB as2
                 then (case assign (touch second) FIRST_PINCHER_JOB as2 of
                         None \<Rightarrow> Stop (TypeError ''first'') s2
                       | Some as3 \<Rightarrow>
                           Ok (s2\<lparr>assignments :=
                                    modify_last (\<lambda>b. b\<lparr>aClientX := aClientX second,
                                                        aClientY := aClientY second\<rparr>) as3\<rparr>))
                 else (case assign (touch second) MOVE_CAMERA_JOB as2 of
                         None \<Rightarrow> Stop (TypeError ''cameraMover'') s2
                       | Some as3 \<Rightarrow>
                           Ok (s2\<lparr>assignments :=
                                    modify_last (\<lambda>b. b\<lparr>aClientX := aClientX second,
                                                        aClientY := aClientY second,
                                                        aDelta := Some (0, 0)\<rparr>) as3\<rparr>))))"

text \<open>Lines 119-131: the second pincher lifts.\<close>

definition endSecondPincher :: "assignment \<Rightarrow> state \<Rightarrow> outcome" where
  "endSecondPincher a s =
     (let as1 = unassign (touch a) (job a) (assignments s);
          s1 = s\<lparr>assignments := as1, pinch := zeroPinch\<rparr>
      in if jobIsAssigned FIRST_PINCHER_JOB as1 \<and> \<not> jobIsAssigned MOVE_CAMERA_JOB as1
         then (case findByJob FIRST_PINCHER_JOB as1 of
                 None \<Rightarrow> Stop (TypeError ''first'') s1
               | Some first \<Rightarrow>
                   (let as2 = unassign (touch first) (job first) as1;
                        s2 = s1\<lparr>assignments := as2\<rparr>
                    in case assign (touch first) MOVE_CAMERA_JOB as2 of
                         None \<Rightarrow> Stop (TypeError ''cameraMover'') s2
                       | Some as3 \<Rightarrow>
                           Ok (s2\<lparr>assignments :=
                                    modify_last (\<lambda>b. b\<lparr>aClientX := aClientX first,
                                                        aClientY := aClientY first,
                                                        aDelta := Some (0, 0)\<rparr>) as3\<rparr>)))
         else Ok s1)"

text \<open>Lines 89-133: the job of the lifted touch is given up.\<close>

definition endJob :: "touch \<Rightarrow> state \<Rightarrow> outcome" where
  "endJob t s =
     (case findByTouch t (assignments s) of
        None \<Rightarrow> Ok (logged (Warn ''touch does not have a job'') s)
      | Some a \<Rightarrow>
          (case job a of
             MOVE_CURSOR_JOB \<Rightarrow> Ok (s\<lparr>assignments := unassign (touch a) (job a) (assignments s)\<rparr>)
           | MOVE_CAMERA_JOB \<Rightarrow> Ok (s\<lparr>assignments := unassign (touch a) (job a) (assignments s)\<rparr>)
           | FIRST_PINCHER_JOB \<Rightarrow> endFirstPincher a s
           | SECOND_PINCHER_JOB \<Rightarrow> endSecondPincher a s))"

text \<open>
  Lines 135-142: once the table is empty the pending tap is settled. A comparison with
  an undefined \<^verbatim>\<open>startedAt\<close> is a comparison with \<^verbatim>\<open>NaN\<close>, which is false.
\<close>

definition settlePendingTap :: "env \<Rightarrow> state \<Rightarrow> state" where
  "settlePendingTap w s =
     (if length (assignments s) = 0
      then (let s1 = (if maxTouchCount (pendingTap s) > 0 \<and>
                         (case startedAt (pendingTap s) of
                            None \<Rightarrow> False
                          | Some t0 \<Rightarrow> now w - t0 \<le> 125)
                      then s\<lparr>tapIndexToWriteNextFrame := maxTouchCount (pendingTap s)\<rparr>
                      else s)
            in s1\<lparr>pendingTap := \<lparr>maxTouchCount = 0, startedAt = None\<rparr>\<rparr>)
      else s)"

definition isPendingFirstTouch :: "touch \<Rightarrow> state \<Rightarrow> bool" where
  "isPendingFirstTouch t s =
     (case pendingFirstTouch s of None \<Rightarrow> False | Some p \<Rightarrow> ident p = ident t)"

definition end_touch :: "env \<Rightarrow> touch \<Rightarrow> state \<Rightarrow> outcome" where
  "end_touch w t s =
     (case pendingFirstTouch s of
        None \<Rightarrow> andThen (endJob t s) (\<lambda>s1. Ok (settlePendingTap w s1))
      | Some p \<Rightarrow>
          if ident p = ident t
          then andThen (processTouchStart w p True s)
                 (\<lambda>s1. Ok ((clearPendingFirstTouch s1)\<lparr>timeouts := timeouts s1 @ [EndLater t]\<rparr>))
          else andThen (endJob t s) (\<lambda>s1. Ok (settlePendingTap w s1)))"

subsection \<open>move\<close>

definition startsWith :: "string \<Rightarrow> string \<Rightarrow> bool" where
  "startsWith str pre = (take (length pre) str = pre)"

text \<open>Lines 175-186: a pincher moves. \<open>s\<close> is the state, \<open>t\<close> the moved touch.\<close>

definition movePincher :: "touch \<Rightarrow> state \<Rightarrow> outcome" where
  "movePincher t s =
     (let as1 = modify_first (\<lambda>a. ident (touch a) = ident t)
                  (\<lambda>a. a\<lparr>aClientX := Some (clientX t), aClientY := Some (clientY t)\<rparr>)
                  (assignments s);
          s1 = s\<lparr>assignments := as1\<rparr>
      in case findByJob FIRST_PINCHER_JOB as1 of
           None \<Rightarrow> Ok s1
         | Some first \<Rightarrow>
             (case findByJob SECOND_PINCHER_JOB as1 of
                None \<Rightarrow> Ok s1
              | Some second \<Rightarrow>
                  (case distanceBetween first second of
                     None \<Rightarrow> Stop (NotANumber ''clientX'') s1
                   | Some d \<Rightarrow>
                       Ok (s1\<lparr>pinch := (pinch s1)
                                \<lparr>delta := delta (pinch s1) + (d - currentDistance (pinch s1)),
                                 currentDistance := d\<rparr>\<rparr>))))"

text \<open>Lines 153-187: the move of a touch that is not the buffered one.\<close>

definition moveJob :: "env \<Rightarrow> touch \<Rightarrow> state \<Rightarrow> outcome" where
  "moveJob w t s =
     (case findByTouch t (assignments s) of
        None \<Rightarrow>
          (case targetClass t of
             None \<Rightarrow> Ok (logged (Warn ''touch does not have job'') s)
           | Some c \<Rightarrow>
               if c = [] \<or> \<not> startsWith c ''virtual-gamepad-controls''
               then Ok (logged (Warn ''touch does not have job'') s)
               else Ok s)
      | Some a \<Rightarrow>
          (case job a of
             MOVE_CURSOR_JOB \<Rightarrow>
               (case cursorPose a of
                  None \<Rightarrow> Stop (TypeError ''cursorPose'') s
                | Some _ \<Rightarrow>
                    Ok (s\<lparr>assignments :=
                            modify_first (\<lambda>b. ident (touch b) = ident t)
                              (\<lambda>b. b\<lparr>cursorPose := Some (projectTouch w t)\<rparr>)
                              (assignments s)\<rparr>))
           | MOVE_CAMERA_JOB \<Rightarrow>
               (case aDelta a of
                  None \<Rightarrow> Stop (TypeError ''delta'') s
                | Some (d0, d1) \<Rightarrow>
                    (case (aClientX a, aClientY a) of
                       (Some x, Some y) \<Rightarrow>
                         Ok (s\<lparr>assignments :=
                                 modify_first (\<lambda>b. ident (touch b) = ident t)
                                   (\<lambda>b. b\<lparr>aDelta := Some (d0 + (clientX t - x),
                                                            d1 + (clientY t - y)),
                                          aClientX := Some (clientX t),
                                          aClientY := Some (clientY t)\<rparr>)
                                   (assignments s)\<rparr>)
                     | _ \<Rightarrow> Stop (NotANumber ''clientX'') s))
           | FIRST_PINCHER_JOB \<Rightarrow> movePincher t s
           | SECOND_PINCHER_JOB \<Rightarrow> movePincher t s))"

definition move :: "env \<Rightarrow> touch \<Rightarrow> state \<Rightarrow> outcome" where
  "move w t s =
     (case pendingFirstTouch s of
        None \<Rightarrow> moveJob w t s
      | Some p \<Rightarrow>
          if ident p = ident t
          then andThen (processTouchStart w p False s)
                 (\<lambda>s1. Ok ((clearPendingFirstTouch s1)\<lparr>timeouts := timeouts s1 @ [MoveLater t]\<rparr>))
          else moveJob w t s)"

subsection \<open>start and the timers\<close>

definition start :: "env \<Rightarrow> touch \<Rightarrow> state \<Rightarrow> outcome" where
  "start w t s =
     (let delayTouch = shouldDelayStartTouch w t in
      case pendingFirstTouch s of
        Some p \<Rightarrow>
          (case assign p FIRST_PINCHER_JOB (assignments s) of
             None \<Rightarrow> Stop (TypeError ''job'') s
           | Some as1 \<Rightarrow>
               processTouchStart w t False
                 (clearPendingFirstTouch
                    (s\<lparr>assignments :=
                         modify_last (\<lambda>a. a\<lparr>aClientX := Some (clientX p),
                                             aClientY := Some (clientY p)\<rparr>) as1\<rparr>)))
      | None \<Rightarrow>
          if delayTouch
          then Ok (s\<lparr>pendingFirstTouch := Some t, firstTouchTimeout := True\<rparr>)
          else processTouchStart w t False s)"

text \<open>
  The callback of the 150 ms timer (lines 214-217). \<open>firstTouchTimeout\<close> tells whether
  the timer is still to fire: \<^verbatim>\<open>start\<close> arms it, \<^verbatim>\<open>clearTimeout\<close> and the firing itself
  disarm it. A timer is armed only while a touch is buffered (lemma
  \<open>run_timer_has_touch\<close>), so the callback always finds one; without one the source
  would fail on \<^verbatim>\<open>null\<close>.
\<close>

definition firstTouchTimeoutFires :: "env \<Rightarrow> state \<Rightarrow> outcome" where
  "firstTouchTimeoutFires w s =
     (if \<not> firstTouchTimeout s then Ok s
      else (case pendingFirstTouch s of
              None \<Rightarrow> Stop (TypeError ''touch'') (s\<lparr>firstTouchTimeout := False\<rparr>)
            | Some p \<Rightarrow>
                andThen (processTouchStart w p False (s\<lparr>firstTouchTimeout := False\<rparr>))
                  (\<lambda>s1. Ok (s1\<lparr>pendingFirstTouch := None\<rparr>))))"

text \<open>The oldest zero-delay callback runs (lines 85 and 149).\<close>

definition timeoutRuns :: "env \<Rightarrow> state \<Rightarrow> outcome" where
  "timeoutRuns w s =
     (case timeouts s of
        [] \<Rightarrow> Ok s
      | EndLater t # rest \<Rightarrow> end_touch w t (s\<lparr>timeouts := rest\<rparr>)
      | MoveLater t # rest \<Rightarrow> move w t (s\<lparr>timeouts := rest\<rparr>))"

subsection \<open>process and write\<close>

fun forEach :: "(touch \<Rightarrow> state \<Rightarrow> outcome) \<Rightarrow> touch list \<Rightarrow> state \<Rightarrow> outcome" where
  "forEach f [] s = Ok s"
| "forEach f (t # ts) s = andThen (f t s) (forEach f ts)"

definition process :: "env \<Rightarrow> event \<Rightarrow> state \<Rightarrow> outcome" where
  "process w ev s =
     (case etype ev of
        touchstart \<Rightarrow> forEach (start w) (changedTouches ev) s
      | touchmove \<Rightarrow> forEach (move w) (touches ev) s
      | touchend \<Rightarrow> forEach (end_touch w) (changedTouches ev) s
      | touchcancel \<Rightarrow> forEach (end_touch w) (changedTouches ev) s)"

text \<open>Lines 314-316: the queued events are processed in the order of their arrival.\<close>

fun drain :: "env \<Rightarrow> event list \<Rightarrow> state \<Rightarrow> outcome" where
  "drain w [] s = Ok s"
| "drain w (ev # evs) s = andThen (process w ev s) (drain w evs)"

text \<open>Lines 304-312: the deltas of the last frame are cleared.\<close>

definition resetDeltas :: "state \<Rightarrow> outcome" where
  "resetDeltas s =
     (let s0 = s\<lparr>pinch := (pinch s)\<lparr>delta := 0\<rparr>\<rparr> in
      case findByJob MOVE_CAMERA_JOB (assignments s0) of
        None \<Rightarrow> Ok s0
      | Some cameraMover \<Rightarrow>
          (case aDelta cameraMover of
             None \<Rightarrow> Stop (TypeError ''delta'') s0
           | Some _ \<Rightarrow>
               Ok (s0\<lparr>assignments :=
                        modify_first (\<lambda>a. job a = MOVE_CAMERA_JOB)
                          (\<lambda>a. a\<lparr>aDelta := Some (0, 0)\<rparr>) (assignments s0)\<rparr>)))"

text \<open>
  Lines 321-355: the state is published. The camera delta is stored in the frame by
  reference in the source; the model stores its value at the time of the call.
\<close>

definition publish :: "env \<Rightarrow> state \<Rightarrow> frame \<times> state" where
  "publish w s =
     (let cursor = findByJob MOVE_CURSOR_JOB (assignments s);
          camera = findByJob MOVE_CAMERA_JOB (assignments s);
          n = tapIndexToWriteNextFrame s;
          f = \<lparr>frame_isTouching = (if cursor \<noteq> None \<or> camera \<noteq> None then Some True else None),
               frame_cursorPose = (case cursor of None \<Rightarrow> None | Some a \<Rightarrow> cursorPose a),
               frame_isTouchingGrabbable =
                 (case cursor of
                    None \<Rightarrow> None
                  | Some a \<Rightarrow> Some (case isFirstFrame a of None \<Rightarrow> True | Some b \<Rightarrow> \<not> b)),
               frame_touchCameraDelta = (case camera of None \<Rightarrow> None | Some a \<Rightarrow> aDelta a),
               frame_pinch_delta = delta (pinch s),
               frame_pinch_initialDistance = initialDistance (pinch s),
               frame_pinch_currentDistance = currentDistance (pinch s),
               frame_tap = (if n \<noteq> 0 \<and> tapPath w n then Some n else None)\<rparr>
      in (f, s\<lparr>assignments :=
                  modify_first (\<lambda>a. job a = MOVE_CURSOR_JOB)
                    (\<lambda>a. a\<lparr>isFirstFrame := Some False\<rparr>) (assignments s),
                tapIndexToWriteNextFrame := 0\<rparr>))"

definition write_frame :: "env \<Rightarrow> state \<Rightarrow> written" where
  "write_frame w s =
     (case andThen (resetDeltas s) (\<lambda>s1. drain w (events s1) s1) of
        Stop e s2 \<Rightarrow> Aborted e s2
      | Ok s2 \<Rightarrow> (case publish w (s2\<lparr>events := []\<rparr>) of (f, s3) \<Rightarrow> Written f s3))"

subsection \<open>Runs of the device\<close>

text \<open>
  What can happen to the device: a listener queues a platform event, a frame is
  written, the 150 ms timer fires, a zero-delay callback runs. After an exception the
  device object lives on in the state the exception left.
\<close>

datatype action =
    Listener event
  | WriteFrame env
  | FirstTouchTimer env
  | Timeout env

fun stateOf :: "outcome \<Rightarrow> state" where
  "stateOf (Ok s) = s"
| "stateOf (Stop e s) = s"

fun stateAfter :: "written \<Rightarrow> state" where
  "stateAfter (Written f s) = s"
| "stateAfter (Aborted e s) = s"

fun step :: "action \<Rightarrow> state \<Rightarrow> state" where
  "step (Listener ev) s = s\<lparr>events := events s @ [ev]\<rparr>"
| "step (WriteFrame w) s = stateAfter (write_frame w s)"
| "step (FirstTouchTimer w) s = stateOf (firstTouchTimeoutFires w s)"
| "step (Timeout w) s = stateOf (timeoutRuns w s)"

fun run :: "action list \<Rightarrow> state \<Rightarrow> state" where
  "run [] s = s"
| "run (a # acts) s = run acts (step a s)"

subsection \<open>Well-formed tables and states\<close>

definition jobsOf :: "assignment list \<Rightarrow> job list" where
  "jobsOf as = map job as"

definition touchesOf :: "assignment list \<Rightarrow> int list" where
  "touchesOf as = map (\<lambda>a. ident (touch a)) as"

definition fieldOk :: "assignment \<Rightarrow> bool" where
  "fieldOk a =
     (case job a of
        MOVE_CURSOR_JOB \<Rightarrow> cursorPose a \<noteq> None
      | MOVE_CAMERA_JOB \<Rightarrow> aClientX a \<noteq> None \<and> aClientY a \<noteq> None \<and> aDelta a \<noteq> None
      | FIRST_PINCHER_JOB \<Rightarrow> aClientX a \<noteq> None \<and> aClientY a \<noteq> None
      | SECOND_PINCHER_JOB \<Rightarrow> aClientX a \<noteq> None \<and> aClientY a \<noteq> None)"

definition tableOk :: "assignment list \<Rightarrow> bool" where
  "tableOk as =
     (distinct (touchesOf as) \<and> distinct (jobsOf as) \<and>
      (SECOND_PINCHER_JOB \<in> set (jobsOf as) \<longrightarrow> FIRST_PINCHER_JOB \<in> set (jobsOf as)) \<and>
      list_all fieldOk as)"

definition ctl :: "state \<Rightarrow> event list \<times> touch option \<times> bool \<times> timeout list \<times> nat" where
  "ctl s = (events s, pendingFirstTouch s, firstTouchTimeout s, timeouts s,
            tapIndexToWriteNextFrame s)"

definition deviceOk :: "state \<Rightarrow> bool" where
  "deviceOk s = (tableOk (assignments s) \<and> (firstTouchTimeout s \<longrightarrow> pendingFirstTouch s \<noteq> None))"

definition good :: "outcome \<Rightarrow> bool" where
  "good r = (case r of Ok s \<Rightarrow> deviceOk s | Stop e s \<Rightarrow> e = TypeError ''job'' \<and> deviceOk s)"

subsection \<open>Example data\<close>

text \<open>
  A scene for the worked examples: the screen is 400 by 300; a ray through a touch left
  of x = 100 hits an interactable element of the UI, one left of 200 a plain UI element,
  one left of 300 an interactable object of the world, any other touch hits nothing.
\<close>

definition demoEnv :: env where
  "demoEnv =
     \<lparr>getTouchIntersection =
        (\<lambda>t. if clientX t < 100 then Some \<lparr>matches_ui = True, matches_interactable = True\<rparr>
             else if clientX t < 200 then Some \<lparr>matches_ui = True, matches_interactable = False\<rparr>
             else if clientX t < 300 then Some \<lparr>matches_ui = False, matches_interactable = True\<rparr>
             else None),
      isCursorGrabbing = False, now = 50, innerWidth = 400, innerHeight = 300,
      tapPath = (\<lambda>n. 1 \<le> n \<and> n \<le> 5)\<rparr>"

definition touchAt :: "int \<Rightarrow> real \<Rightarrow> real \<Rightarrow> touch" where
  "touchAt i x y = \<lparr>ident = i, clientX = x, clientY = y, targetClass = None\<rparr>"

definition touchA :: touch where "touchA = touchAt 1 350 100"

definition touchB :: touch where "touchB = touchAt 2 353 104"

definition touchC :: touch where "touchC = touchAt 3 360 110"

definition touchD :: touch where "touchD = touchAt 4 370 120"

definition touchU :: touch where "touchU = touchAt 5 50 50"

definition touchV :: touch where "touchV = touchAt 6 150 60"

definition touchI :: touch where "touchI = touchAt 7 250 70"

definition eventOf :: "event_type \<Rightarrow> touch list \<Rightarrow> event" where
  "eventOf k ts = \<lparr>etype = k, changedTouches = ts, touches = ts\<rparr>"

text \<open>
  Two states of the example: touches A and B have landed on the world and a frame was
  written (A is the first pincher, B the second); the same after touch V had landed on
  a plain UI element (V moves the camera).
\<close>

definition pinching :: state where
  "pinching = run [Listener (eventOf touchstart [touchA, touchB]), WriteFrame demoEnv] initial"

definition pinchingWithCamera :: state where
  "pinchingWithCamera =
     run [Listener (eventOf touchstart [touchV, touchA, touchB]), WriteFrame demoEnv] initial"

text \<open>
  Touch U has landed on an interactable element of the UI at time 50 and moves the
  cursor; \<open>laterEnv\<close> is the example scene at time 100.
\<close>

definition touching :: state where
  "touching = run [Listener (eventOf touchstart [touchU]), WriteFrame demoEnv] initial"

definition laterEnv :: env where
  "laterEnv = demoEnv\<lparr>now := 100\<rparr>"

subsection \<open>How a call changes the pinch state\<close>

text \<open>
  \<open>pinchKept p p'\<close>: from \<open>p\<close> to \<open>p'\<close> the delta grew by what the current distance
  grew, and the initial distance stayed. \<open>pinchStep p p'\<close>: that, or the pinch was set
  anew on the way, so that the delta of \<open>p'\<close> counts from its initial distance.
\<close>

definition pinchKept :: "pinch \<Rightarrow> pinch \<Rightarrow> bool" where
  "pinchKept p p' =
     (delta p' - currentDistance p' = delta p - currentDistance p \<and>
      initialDistance p' = initialDistance p)"

definition pinchStep :: "pinch \<Rightarrow> pinch \<Rightarrow> bool" where
  "pinchStep p p' = (pinchKept p p' \<or> delta p' = currentDistance p' - initialDistance p')"


text \<open>
  Touch P lands on the world 500 away from touch V, and has moved to a place 1000 away
  from it.
\<close>

definition touchP :: touch where "touchP = touchAt 8 450 460"

definition touchP2 :: touch where "touchP2 = touchAt 8 750 860"

subsection \<open>Reading a frame write\<close>

text \<open>The frame that a call of \<^verbatim>\<open>write\<close> has filled, if the call returned.\<close>

fun frameOf :: "written \<Rightarrow> frame option" where
  "frameOf (Written f s) = Some f"
| "frameOf (Aborted e s) = None"

text \<open>
  \<open>frameStep s s'\<close>: how the pinch state can change from \<open>s\<close> to \<open>s'\<close> while no touch
  lifts. With a second pincher in \<open>s\<close> the pinch goes on (\<open>pinchKept\<close>). Without one,
  either there is none in \<open>s'\<close> and the pinch state is that of \<open>s\<close>, or a touch
  became the second pincher on the way and the delta of \<open>s'\<close> counts from the initial
  distance of the new pinch.
\<close>

definition frameStep :: "state \<Rightarrow> state \<Rightarrow> bool" where
  "frameStep s s' =
     (if jobIsAssigned SECOND_PINCHER_JOB (assignments s)
      then jobIsAssigned SECOND_PINCHER_JOB (assignments s') \<and> pinchKept (pinch s) (pinch s')
      else if jobIsAssigned SECOND_PINCHER_JOB (assignments s')
           then delta (pinch s') = currentDistance (pinch s') - initialDistance (pinch s')
           else pinch s' = pinch s)"

text \<open>
  \<open>cursorFrame t b as\<close>: the cursor assignment of the table \<open>as\<close> belongs to touch \<open>t\<close>
  and its \<open>isFirstFrame\<close> is \<open>b\<close>.
\<close>

definition cursorFrame :: "touch \<Rightarrow> bool \<Rightarrow> assignment list \<Rightarrow> bool" where
  "cursorFrame t b as =
     (case findByJob MOVE_CURSOR_JOB as of
        None \<Rightarrow> False
      | Some a \<Rightarrow> ident (touch a) = ident t \<and> isFirstFrame a = Some b)"

section \<open>Properties\<close>

subsection \<open>The assignment table\<close>

lemma jobIsAssigned_iff: "jobIsAssigned j as \<longleftrightarrow> j \<in> set (jobsOf as)"
  by (auto simp: jobIsAssigned_def findByJob_def jobsOf_def find_None_iff)

lemma touchIsAssigned_iff: "touchIsAssigned t as \<longleftrightarrow> ident t \<in> set (touchesOf as)"
  by (force simp: touchIsAssigned_def findByTouch_def touchesOf_def find_None_iff)

lemma findByJob_None_iff: "findByJob j as = None \<longleftrightarrow> j \<notin> set (jobsOf as)"
  by (auto simp: findByJob_def jobsOf_def find_None_iff)

lemma findByJob_SomeD: "findByJob j as = Some a \<Longrightarrow> a \<in> set as \<and> job a = j"
  by (auto simp: findByJob_def find_Some_iff)

lemma findByTouch_SomeD: "findByTouch t as = Some a \<Longrightarrow> a \<in> set as \<and> ident (touch a) = ident t"
  by (auto simp: findByTouch_def find_Some_iff)

lemma jobsOf_modify_last: "(\<And>a. job (f a) = job a) \<Longrightarrow> jobsOf (modify_last f as) = jobsOf as"
  by (induction f as rule: modify_last.induct) (simp_all add: jobsOf_def)

lemma touchesOf_modify_last:
  "(\<And>a. touch (f a) = touch a) \<Longrightarrow> touchesOf (modify_last f as) = touchesOf as"
  by (induction f as rule: modify_last.induct) (simp_all add: touchesOf_def)

lemma jobsOf_modify_first: "(\<And>a. job (f a) = job a) \<Longrightarrow> jobsOf (modify_first P f as) = jobsOf as"
  by (induction as) (simp_all add: jobsOf_def)

lemma touchesOf_modify_first:
  "(\<And>a. touch (f a) = touch a) \<Longrightarrow> touchesOf (modify_first P f as) = touchesOf as"
  by (induction as) (simp_all add: touchesOf_def)

lemma modify_last_snoc [simp]: "modify_last f (as @ [a]) = as @ [f a]"
  by (induction f as rule: modify_last.induct) simp_all

lemma modify_last_append [simp]: "ys \<noteq> [] \<Longrightarrow> modify_last f (xs @ ys) = xs @ modify_last f ys"
proof (induction xs)
  case Nil then show ?case by simp
next
  case (Cons x xs)
  then obtain z zs where "xs @ ys = z # zs" by (cases "xs @ ys") auto
  then show ?case using Cons by simp
qed

lemma assign_SomeD:
  "assign t j as = Some as' \<Longrightarrow>
     as' = as @ [newAssignment t j] \<and> ident t \<notin> set (touchesOf as) \<and> j \<notin> set (jobsOf as)"
  by (auto simp: assign_def touchIsAssigned_iff jobIsAssigned_iff split: if_splits)

lemma assign_None_iff:
  "assign t j as = None \<longleftrightarrow> ident t \<in> set (touchesOf as) \<or> j \<in> set (jobsOf as)"
  by (auto simp: assign_def touchIsAssigned_iff jobIsAssigned_iff)

lemma jobsOf_unassign_subset: "set (jobsOf (unassign t j as)) \<subseteq> set (jobsOf as)"
  by (induction as) (auto simp: jobsOf_def)

lemma touchesOf_unassign_subset: "set (touchesOf (unassign t j as)) \<subseteq> set (touchesOf as)"
  by (induction as) (auto simp: touchesOf_def)

lemma distinct_jobsOf_unassign: "distinct (jobsOf as) \<Longrightarrow> distinct (jobsOf (unassign t j as))"
proof (induction as)
  case Nil then show ?case by (simp add: jobsOf_def)
next
  case (Cons a as)
  then show ?case using jobsOf_unassign_subset[of t j as] by (auto simp: jobsOf_def)
qed

lemma distinct_touchesOf_unassign:
  "distinct (touchesOf as) \<Longrightarrow> distinct (touchesOf (unassign t j as))"
proof (induction as)
  case Nil then show ?case by (simp add: touchesOf_def)
next
  case (Cons a as)
  then show ?case using touchesOf_unassign_subset[of t j as] by (auto simp: touchesOf_def)
qed

lemma jobsOf_unassign_other:
  "j' \<noteq> j \<Longrightarrow> j' \<in> set (jobsOf (unassign t j as)) \<longleftrightarrow> j' \<in> set (jobsOf as)"
  by (induction as) (auto simp: jobsOf_def)

lemma jobsOf_unassign_same:
  "distinct (jobsOf as) \<Longrightarrow> a \<in> set as \<Longrightarrow> ident (touch a) = ident t \<Longrightarrow> job a = j \<Longrightarrow>
   j \<notin> set (jobsOf (unassign t j as))"
proof (induction as)
  case Nil then show ?case by simp
next
  case (Cons x as)
  show ?case
  proof (cases "ident (touch x) = ident t \<and> job x = j")
    case True
    then show ?thesis using Cons.prems(1) by (auto simp: jobsOf_def)
  next
    case False
    then have "a \<in> set as" using Cons.prems by auto
    then have "job x \<noteq> j" using Cons.prems(1,4) by (auto simp: jobsOf_def)
    moreover have "j \<notin> set (jobsOf (unassign t j as))"
      using Cons.IH[OF _ \<open>a \<in> set as\<close> Cons.prems(3,4)] Cons.prems(1) by (simp add: jobsOf_def)
    ultimately show ?thesis using False by (auto simp: jobsOf_def)
  qed
qed

lemma touchesOf_unassign_same:
  "distinct (touchesOf as) \<Longrightarrow> a \<in> set as \<Longrightarrow> ident (touch a) = ident t \<Longrightarrow> job a = j \<Longrightarrow>
   ident t \<notin> set (touchesOf (unassign t j as))"
proof (induction as)
  case Nil then show ?case by simp
next
  case (Cons x as)
  show ?case
  proof (cases "x = a")
    case True
    then show ?thesis using Cons.prems by (auto simp: touchesOf_def)
  next
    case False
    then have in_as: "a \<in> set as" using Cons.prems by auto
    then have ne: "ident (touch x) \<noteq> ident t" using Cons.prems(1,3) by (force simp: touchesOf_def)
    have "ident t \<notin> set (touchesOf (unassign t j as))"
      using Cons.IH[OF _ in_as Cons.prems(3,4)] Cons.prems(1) by (simp add: touchesOf_def)
    then show ?thesis using ne by (auto simp: touchesOf_def)
  qed
qed

lemma find_append_if:
  "find P (xs @ ys) = (case find P xs of None \<Rightarrow> find P ys | Some x \<Rightarrow> Some x)"
  by (induction xs) simp_all

lemma jobsOf_append [simp]: "jobsOf (xs @ ys) = jobsOf xs @ jobsOf ys"
  by (simp add: jobsOf_def)

lemma touchesOf_append [simp]: "touchesOf (xs @ ys) = touchesOf xs @ touchesOf ys"
  by (simp add: touchesOf_def)

lemma jobsOf_Cons [simp]: "jobsOf (a # as) = job a # jobsOf as" "jobsOf [] = []"
  by (simp_all add: jobsOf_def)

lemma touchesOf_Cons [simp]: "touchesOf (a # as) = ident (touch a) # touchesOf as" "touchesOf [] = []"
  by (simp_all add: touchesOf_def)

lemma unassign_skip:
  "\<forall>x\<in>set xs. \<not> (ident (touch x) = ident t \<and> job x = j) \<Longrightarrow>
   unassign t j (xs @ ys) = xs @ unassign t j ys"
  by (induction xs) auto

lemma unassign_at:
  assumes "distinct (touchesOf as)" "a \<in> set as"
  shows "\<exists>xs ys. as = xs @ a # ys \<and> unassign (touch a) (job a) as = xs @ ys"
proof -
  from assms(2) obtain xs ys where as: "as = xs @ a # ys" by (auto dest: split_list)
  have "ident (touch a) \<notin> set (touchesOf xs)"
    using assms(1) unfolding as by simp
  then have "\<forall>x\<in>set xs. ident (touch x) \<noteq> ident (touch a)"
    unfolding touchesOf_def by (metis image_eqI set_map)
  then have "unassign (touch a) (job a) (xs @ a # ys) = xs @ unassign (touch a) (job a) (a # ys)"
    by (intro unassign_skip) simp
  then have "unassign (touch a) (job a) as = xs @ ys" using as by simp
  with as show ?thesis by blast
qed

lemma findByJob_snoc:
  "findByJob j (as @ [a]) =
     (if j \<in> set (jobsOf as) then findByJob j as else if job a = j then Some a else None)"
proof (cases "findByJob j as")
  case None
  then show ?thesis
    using findByJob_None_iff[of j as] by (simp add: findByJob_def find_append_if)
next
  case (Some b)
  then show ?thesis
    using findByJob_None_iff[of j as] by (simp add: findByJob_def find_append_if)
qed

subsection \<open>Well-formed tables\<close>

text \<open>
  \<open>tableOk\<close>: no touch and no job occurs twice, a second pincher has its first pincher,
  and every assignment has the fields that its job reads.
\<close>

lemma fieldOk_job:
  "job a = MOVE_CURSOR_JOB \<Longrightarrow> fieldOk a \<longleftrightarrow> cursorPose a \<noteq> None"
  "job a = MOVE_CAMERA_JOB \<Longrightarrow>
     fieldOk a \<longleftrightarrow> aClientX a \<noteq> None \<and> aClientY a \<noteq> None \<and> aDelta a \<noteq> None"
  "job a = FIRST_PINCHER_JOB \<Longrightarrow> fieldOk a \<longleftrightarrow> aClientX a \<noteq> None \<and> aClientY a \<noteq> None"
  "job a = SECOND_PINCHER_JOB \<Longrightarrow> fieldOk a \<longleftrightarrow> aClientX a \<noteq> None \<and> aClientY a \<noteq> None"
  by (simp_all add: fieldOk_def)

lemma set_unassign_subset: "set (unassign t j as) \<subseteq> set as"
  by (induction as) auto

lemma list_all_unassign: "list_all P as \<Longrightarrow> list_all P (unassign t j as)"
  using set_unassign_subset[of t j as] by (auto simp: list_all_iff)

lemma list_all_modify_first:
  "list_all P as \<Longrightarrow> (\<And>a. P a \<Longrightarrow> Q a \<Longrightarrow> P (f a)) \<Longrightarrow> list_all P (modify_first Q f as)"
  by (induction as) auto

lemma jobsOf_snoc [simp]: "jobsOf (as @ [a]) = jobsOf as @ [job a]"
  by (simp add: jobsOf_def)

lemma touchesOf_snoc [simp]: "touchesOf (as @ [a]) = touchesOf as @ [ident (touch a)]"
  by (simp add: touchesOf_def)

lemma newAssignment_simps [simp]:
  "job (newAssignment t j) = j" "touch (newAssignment t j) = t"
  "aClientX (newAssignment t j) = None" "aClientY (newAssignment t j) = None"
  "aDelta (newAssignment t j) = None" "cursorPose (newAssignment t j) = None"
  "isFirstFrame (newAssignment t j) = None"
  by (simp_all add: newAssignment_def)

lemma findByJob_fieldOk:
  "list_all fieldOk as \<Longrightarrow> findByJob j as = Some a \<Longrightarrow> fieldOk a \<and> job a = j \<and> a \<in> set as"
  using findByJob_SomeD[of j as a] by (auto simp: list_all_iff)

subsection \<open>A touch-start keeps the table well formed\<close>

lemma takeFirstPincher_ok:
  assumes ok: "tableOk (assignments s)"
    and has: "FIRST_PINCHER_JOB \<in> set (jobsOf (assignments s)) \<or> MOVE_CAMERA_JOB \<in> set (jobsOf (assignments s))"
    and nosec: "SECOND_PINCHER_JOB \<notin> set (jobsOf (assignments s))"
  shows "\<exists>first s1. takeFirstPincher s = Inr (first, s1) \<and> tableOk (assignments s1) \<and>
           findByJob FIRST_PINCHER_JOB (assignments s1) = Some first \<and>
           aClientX first \<noteq> None \<and> aClientY first \<noteq> None \<and>
           set (touchesOf (assignments s1)) = set (touchesOf (assignments s)) \<and>
           SECOND_PINCHER_JOB \<notin> set (jobsOf (assignments s1)) \<and>
           length (assignments s1) = length (assignments s) \<and>
           s1 = s\<lparr>assignments := assignments s1\<rparr>"
proof (cases "findByJob FIRST_PINCHER_JOB (assignments s)")
  case (Some first)
  then have "fieldOk first \<and> job first = FIRST_PINCHER_JOB"
    using ok findByJob_fieldOk by (auto simp: tableOk_def)
  then have "aClientX first \<noteq> None \<and> aClientY first \<noteq> None" by (auto simp: fieldOk_def)
  then show ?thesis using Some ok nosec by (simp add: takeFirstPincher_def)
next
  case None
  then have nofirst: "FIRST_PINCHER_JOB \<notin> set (jobsOf (assignments s))"
    by (simp add: findByJob_None_iff)
  with has have "MOVE_CAMERA_JOB \<in> set (jobsOf (assignments s))" by simp
  then obtain cm where cm: "findByJob MOVE_CAMERA_JOB (assignments s) = Some cm"
    using findByJob_None_iff[of MOVE_CAMERA_JOB "assignments s"] by (cases "findByJob MOVE_CAMERA_JOB (assignments s)") auto
  let ?as = "assignments s"
  let ?as1 = "unassign (touch cm) (job cm) ?as"
  have cmP: "fieldOk cm" "job cm = MOVE_CAMERA_JOB" "cm \<in> set ?as"
    using ok cm findByJob_fieldOk by (auto simp: tableOk_def)
  have d: "distinct (touchesOf ?as)" "distinct (jobsOf ?as)" "list_all fieldOk ?as"
    using ok by (auto simp: tableOk_def)
  have t1: "ident (touch cm) \<notin> set (touchesOf ?as1)"
    using touchesOf_unassign_same[OF d(1) cmP(3) refl refl] .
  have j1: "FIRST_PINCHER_JOB \<notin> set (jobsOf ?as1)"
    using nofirst jobsOf_unassign_subset[of "touch cm" "job cm" ?as] by auto
  have asg: "assign (touch cm) FIRST_PINCHER_JOB ?as1 = Some (?as1 @ [newAssignment (touch cm) FIRST_PINCHER_JOB])"
    using t1 j1 by (simp add: assign_def touchIsAssigned_iff jobIsAssigned_iff)
  let ?f = "\<lambda>a. a\<lparr>aClientX := aClientX cm, aClientY := aClientY cm\<rparr>"
  let ?first = "?f (newAssignment (touch cm) FIRST_PINCHER_JOB)"
  let ?as2 = "?as1 @ [?first]"
  have eq: "takeFirstPincher s = Inr (?first, s\<lparr>assignments := ?as2\<rparr>)"
    using None cm asg by (simp add: takeFirstPincher_def Let_def)
  have c: "aClientX cm \<noteq> None" "aClientY cm \<noteq> None"
    using cmP by (auto simp: fieldOk_def)
  have dt: "distinct (touchesOf ?as2)"
    using t1 distinct_touchesOf_unassign[OF d(1)] by simp
  have dj: "distinct (jobsOf ?as2)"
    using j1 distinct_jobsOf_unassign[OF d(2)] by simp
  have fo: "list_all fieldOk ?as2"
    using list_all_unassign[OF d(3)] c by (simp add: fieldOk_job)
  have ns: "SECOND_PINCHER_JOB \<notin> set (jobsOf ?as2)"
    using nosec jobsOf_unassign_subset[of "touch cm" "job cm" ?as] by auto
  have fnd: "findByJob FIRST_PINCHER_JOB ?as2 = Some ?first"
    using j1 by (simp add: findByJob_snoc)
  obtain xs ys where xy: "?as = xs @ cm # ys" "?as1 = xs @ ys"
    using unassign_at[OF d(1) cmP(3)] by blast
  have ts: "set (touchesOf ?as2) = set (touchesOf ?as)"
    by (simp only: xy(2)) (auto simp: xy(1))
  have len: "length ?as2 = length ?as"
    by (simp only: xy(2)) (simp add: xy(1))
  show ?thesis
    unfolding eq using dt dj fo ns fnd ts len c by (simp add: tableOk_def)
qed

lemma ctl_simps [simp]:
  "ctl (s\<lparr>assignments := as\<rparr>) = ctl s"
  "ctl (s\<lparr>pinch := p\<rparr>) = ctl s"
  "ctl (s\<lparr>pendingTap := pt\<rparr>) = ctl s"
  "ctl (s\<lparr>console := c\<rparr>) = ctl s"
  by (simp_all add: ctl_def)

lemma assignSecondPincher_ok:
  assumes ok: "tableOk (assignments s)"
    and has: "FIRST_PINCHER_JOB \<in> set (jobsOf (assignments s)) \<or> MOVE_CAMERA_JOB \<in> set (jobsOf (assignments s))"
    and nosec: "SECOND_PINCHER_JOB \<notin> set (jobsOf (assignments s))"
    and fresh: "ident t \<notin> set (touchesOf (assignments s))"
  shows "\<exists>s'. assignSecondPincher t s = Ok s' \<and> tableOk (assignments s') \<and> ctl s' = ctl s"
proof -
  from takeFirstPincher_ok[OF ok has nosec] obtain first s1 where
    tk: "takeFirstPincher s = Inr (first, s1)" and ok1: "tableOk (assignments s1)"
    and fnd: "findByJob FIRST_PINCHER_JOB (assignments s1) = Some first"
    and c: "aClientX first \<noteq> None" "aClientY first \<noteq> None"
    and ts: "set (touchesOf (assignments s1)) = set (touchesOf (assignments s))"
    and ns: "SECOND_PINCHER_JOB \<notin> set (jobsOf (assignments s1))"
    and s1: "s1 = s\<lparr>assignments := assignments s1\<rparr>"
    by blast
  let ?as1 = "assignments s1"
  let ?g = "\<lambda>a. a\<lparr>aClientX := Some (clientX t), aClientY := Some (clientY t)\<rparr>"
  let ?second = "?g (newAssignment t SECOND_PINCHER_JOB)"
  have asg: "assign t SECOND_PINCHER_JOB ?as1 = Some (?as1 @ [newAssignment t SECOND_PINCHER_JOB])"
    using fresh ts ns by (simp add: assign_def touchIsAssigned_iff jobIsAssigned_iff)
  obtain x1 y1 where xy: "aClientX first = Some x1" "aClientY first = Some y1"
    using c by auto
  let ?d = "distance x1 y1 (clientX t) (clientY t)"
  have db: "distanceBetween first ?second = Some ?d"
    using xy by (simp add: distanceBetween_def)
  let ?s' = "s1\<lparr>assignments := ?as1 @ [?second],
                 pinch := \<lparr>initialDistance = ?d, currentDistance = ?d, delta = 0\<rparr>\<rparr>"
  have eq: "assignSecondPincher t s = Ok ?s'"
    using tk asg unfolding assignSecondPincher_def by (simp add: Let_def db)
  have first_in: "FIRST_PINCHER_JOB \<in> set (jobsOf ?as1)"
    using fnd findByJob_None_iff[of FIRST_PINCHER_JOB ?as1] by auto
  have "tableOk (?as1 @ [?second])"
    using ok1 fresh ts ns first_in by (simp add: tableOk_def fieldOk_def)
  moreover have "ctl ?s' = ctl s" by (subst (2) s1) simp
  ultimately show ?thesis using eq by simp
qed

lemma tableOk_snoc:
  "tableOk as \<Longrightarrow> ident (touch a) \<notin> set (touchesOf as) \<Longrightarrow> job a \<notin> set (jobsOf as) \<Longrightarrow>
   fieldOk a \<Longrightarrow> job a \<noteq> SECOND_PINCHER_JOB \<Longrightarrow> tableOk (as @ [a])"
  by (auto simp: tableOk_def)

lemma resolveJob_ok:
  assumes ok: "tableOk (assignments s)"
    and fresh: "ident t \<notin> set (touchesOf (assignments s))"
  shows "\<exists>s'. resolveJob w t allow s = Ok s' \<and> tableOk (assignments s') \<and> ctl s' = ctl s"
proof -
  let ?as = "assignments s"
  let ?hf = "FIRST_PINCHER_JOB \<in> set (jobsOf ?as)"
  let ?c1 = "\<not> ?hf \<and> MOVE_CURSOR_JOB \<notin> set (jobsOf ?as) \<and> (allow \<or> isCursorOverInteractable w t)"
  let ?c2 = "\<not> ?hf \<and> MOVE_CAMERA_JOB \<notin> set (jobsOf ?as)"
  let ?c3 = "SECOND_PINCHER_JOB \<notin> set (jobsOf ?as)"
  consider (cursor) ?c1 | (camera) "\<not> ?c1" ?c2 | (second) "\<not> ?c1" "\<not> ?c2" ?c3
    | (none) "\<not> ?c1" "\<not> ?c2" "\<not> ?c3" by blast
  then show ?thesis
  proof cases
    case cursor
    then have asg: "assign t MOVE_CURSOR_JOB ?as = Some (?as @ [newAssignment t MOVE_CURSOR_JOB])"
      using fresh by (simp add: assign_def touchIsAssigned_iff jobIsAssigned_iff)
    have "tableOk (?as @ [(newAssignment t MOVE_CURSOR_JOB)\<lparr>cursorPose := Some (projectTouch w t),
              isFirstFrame := Some True\<rparr>])"
      using ok fresh cursor by (intro tableOk_snoc) (simp_all add: fieldOk_def)
    then show ?thesis
      using cursor asg by (simp add: resolveJob_def jobIsAssigned_iff)
  next
    case camera
    then have asg: "assign t MOVE_CAMERA_JOB ?as = Some (?as @ [newAssignment t MOVE_CAMERA_JOB])"
      using fresh by (simp add: assign_def touchIsAssigned_iff jobIsAssigned_iff)
    have "tableOk (?as @ [(newAssignment t MOVE_CAMERA_JOB)\<lparr>aClientX := Some (clientX t),
              aClientY := Some (clientY t), aDelta := Some (0, 0)\<rparr>])"
      using ok fresh camera by (intro tableOk_snoc) (simp_all add: fieldOk_def)
    then show ?thesis
      using camera asg by (auto simp: resolveJob_def jobIsAssigned_iff)
  next
    case second
    then have has: "?hf \<or> MOVE_CAMERA_JOB \<in> set (jobsOf ?as)" by blast
    from assignSecondPincher_ok[OF ok has second(3) fresh]
    show ?thesis using second by (auto simp: resolveJob_def jobIsAssigned_iff)
  next
    case none
    then show ?thesis using ok by (auto simp: resolveJob_def jobIsAssigned_iff logged_def)
  qed
qed

lemma tableOk_updatePendingTap [simp]: "assignments (updatePendingTap w s) = assignments s"
  by (simp add: updatePendingTap_def Let_def)

lemma ctl_updatePendingTap [simp]: "ctl (updatePendingTap w s) = ctl s"
  by (simp add: updatePendingTap_def Let_def)

lemma processTouchStart_ok:
  assumes ok: "tableOk (assignments s)"
  shows "\<exists>s'. processTouchStart w t allow s = Ok s' \<and> tableOk (assignments s') \<and> ctl s' = ctl s"
proof (cases "touchIsAssigned t (assignments s)")
  case True
  then show ?thesis using ok by (simp add: processTouchStart_def logged_def)
next
  case False
  then have "ident t \<notin> set (touchesOf (assignments s))" by (simp add: touchIsAssigned_iff)
  from resolveJob_ok[OF ok this, of w allow] obtain s1 where
    "resolveJob w t allow s = Ok s1" "tableOk (assignments s1)" "ctl s1 = ctl s" by blast
  then show ?thesis using False by (simp add: processTouchStart_def andThen_def)
qed

subsection \<open>A touch-end keeps the table well formed\<close>

lemma tableOk_unassign:
  assumes "tableOk as" "a \<in> set as"
  obtains xs ys where "as = xs @ a # ys" "unassign (touch a) (job a) as = xs @ ys"
  using unassign_at[of as a] assms by (auto simp: tableOk_def)

lemma findByJob_in: "j \<in> set (jobsOf as) \<Longrightarrow> \<exists>a. findByJob j as = Some a"
  using findByJob_None_iff[of j as] by (cases "findByJob j as") auto

lemma endFirstPincher_ok:
  assumes ok: "tableOk (assignments s)" and a: "a \<in> set (assignments s)" "job a = FIRST_PINCHER_JOB"
  shows "\<exists>s'. endFirstPincher a s = Ok s' \<and> tableOk (assignments s') \<and> ctl s' = ctl s"
proof -
  obtain xs ys where as: "assignments s = xs @ a # ys"
    and as1: "unassign (touch a) (job a) (assignments s) = xs @ ys"
    using tableOk_unassign[OF ok a(1)] by blast
  let ?as1 = "xs @ ys"
  have ok0: "distinct (touchesOf ?as1)" "distinct (jobsOf ?as1)" "list_all fieldOk ?as1"
    "FIRST_PINCHER_JOB \<notin> set (jobsOf ?as1)"
    using ok a(2) unfolding as by (auto simp: tableOk_def)
  show ?thesis
  proof (cases "findByJob SECOND_PINCHER_JOB ?as1")
    case None
    then have "tableOk ?as1" using ok0 by (simp add: tableOk_def findByJob_None_iff)
    then show ?thesis using None as1 by (simp add: endFirstPincher_def Let_def)
  next
    case (Some second)
    then have sec: "second \<in> set ?as1" "job second = SECOND_PINCHER_JOB" "fieldOk second"
      using findByJob_fieldOk[OF ok0(3) Some] by auto
    obtain us vs where as1': "?as1 = us @ second # vs"
      and as2: "unassign (touch second) (job second) ?as1 = us @ vs"
      using unassign_at[OF ok0(1) sec(1)] by blast
    let ?as2 = "us @ vs"
    have ok2: "distinct (touchesOf ?as2)" "distinct (jobsOf ?as2)" "list_all fieldOk ?as2"
      "FIRST_PINCHER_JOB \<notin> set (jobsOf ?as2)" "SECOND_PINCHER_JOB \<notin> set (jobsOf ?as2)"
      "ident (touch second) \<notin> set (touchesOf ?as2)"
      using ok0 sec(2) unfolding as1' by auto
    have c: "aClientX second \<noteq> None" "aClientY second \<noteq> None"
      using sec by (auto simp: fieldOk_def)
    show ?thesis
    proof (cases "MOVE_CAMERA_JOB \<in> set (jobsOf ?as2)")
      case True
      have asg: "assign (touch second) FIRST_PINCHER_JOB ?as2 =
                   Some (?as2 @ [newAssignment (touch second) FIRST_PINCHER_JOB])"
        using ok2 by (simp add: assign_def touchIsAssigned_iff jobIsAssigned_iff)
      have "tableOk (?as2 @ [(newAssignment (touch second) FIRST_PINCHER_JOB)
               \<lparr>aClientX := aClientX second, aClientY := aClientY second\<rparr>])"
        using ok2 c by (simp add: tableOk_def fieldOk_def)
      then show ?thesis
        using Some as1 as2 True asg by (simp add: endFirstPincher_def Let_def jobIsAssigned_iff)
    next
      case False
      have asg: "assign (touch second) MOVE_CAMERA_JOB ?as2 =
                   Some (?as2 @ [newAssignment (touch second) MOVE_CAMERA_JOB])"
        using ok2 False by (simp add: assign_def touchIsAssigned_iff jobIsAssigned_iff)
      have "tableOk (?as2 @ [(newAssignment (touch second) MOVE_CAMERA_JOB)
               \<lparr>aClientX := aClientX second, aClientY := aClientY second,
                aDelta := Some (0, 0)\<rparr>])"
        using ok2 c False by (simp add: tableOk_def fieldOk_def)
      then show ?thesis
        using Some as1 as2 False asg by (simp add: endFirstPincher_def Let_def jobIsAssigned_iff)
    qed
  qed
qed

lemma endSecondPincher_ok:
  assumes ok: "tableOk (assignments s)" and a: "a \<in> set (assignments s)" "job a = SECOND_PINCHER_JOB"
  shows "\<exists>s'. endSecondPincher a s = Ok s' \<and> tableOk (assignments s') \<and> ctl s' = ctl s"
proof -
  obtain xs ys where as: "assignments s = xs @ a # ys"
    and as1: "unassign (touch a) (job a) (assignments s) = xs @ ys"
    using tableOk_unassign[OF ok a(1)] by blast
  let ?as1 = "xs @ ys"
  have ok0: "distinct (touchesOf ?as1)" "distinct (jobsOf ?as1)" "list_all fieldOk ?as1"
    "SECOND_PINCHER_JOB \<notin> set (jobsOf ?as1)"
    using ok a(2) unfolding as by (auto simp: tableOk_def)
  then have ok1: "tableOk ?as1" by (simp add: tableOk_def)
  show ?thesis
  proof (cases "FIRST_PINCHER_JOB \<in> set (jobsOf ?as1) \<and> MOVE_CAMERA_JOB \<notin> set (jobsOf ?as1)")
    case False
    then show ?thesis using ok1 as1 by (auto simp: endSecondPincher_def Let_def jobIsAssigned_iff)
  next
    case True
    then obtain first where fnd: "findByJob FIRST_PINCHER_JOB ?as1 = Some first"
      using findByJob_in by blast
    then have fst: "first \<in> set ?as1" "job first = FIRST_PINCHER_JOB" "fieldOk first"
      using findByJob_fieldOk[OF ok0(3) fnd] by auto
    obtain us vs where as1': "?as1 = us @ first # vs"
      and as2: "unassign (touch first) (job first) ?as1 = us @ vs"
      using unassign_at[OF ok0(1) fst(1)] by blast
    let ?as2 = "us @ vs"
    have ok2: "distinct (touchesOf ?as2)" "distinct (jobsOf ?as2)" "list_all fieldOk ?as2"
      "FIRST_PINCHER_JOB \<notin> set (jobsOf ?as2)" "SECOND_PINCHER_JOB \<notin> set (jobsOf ?as2)"
      "ident (touch first) \<notin> set (touchesOf ?as2)" "MOVE_CAMERA_JOB \<notin> set (jobsOf ?as2)"
      using ok0 fst(2) True unfolding as1' by auto
    have c: "aClientX first \<noteq> None" "aClientY first \<noteq> None"
      using fst by (auto simp: fieldOk_def)
    have asg: "assign (touch first) MOVE_CAMERA_JOB ?as2 =
                 Some (?as2 @ [newAssignment (touch first) MOVE_CAMERA_JOB])"
      using ok2 by (simp add: assign_def touchIsAssigned_iff jobIsAssigned_iff)
    have "tableOk (?as2 @ [(newAssignment (touch first) MOVE_CAMERA_JOB)
             \<lparr>aClientX := aClientX first, aClientY := aClientY first,
              aDelta := Some (0, 0)\<rparr>])"
      using ok2 c by (simp add: tableOk_def fieldOk_def)
    then show ?thesis
      using True fnd as1 as2 asg by (simp add: endSecondPincher_def Let_def jobIsAssigned_iff)
  qed
qed

lemma endJob_ok:
  assumes ok: "tableOk (assignments s)"
  shows "\<exists>s'. endJob t s = Ok s' \<and> tableOk (assignments s') \<and> ctl s' = ctl s"
proof (cases "findByTouch t (assignments s)")
  case None
  then show ?thesis using ok by (simp add: endJob_def logged_def)
next
  case (Some a)
  then have a: "a \<in> set (assignments s)" using findByTouch_SomeD by blast
  obtain xs ys where as: "assignments s = xs @ a # ys"
    and as1: "unassign (touch a) (job a) (assignments s) = xs @ ys"
    using tableOk_unassign[OF ok a] by blast
  show ?thesis
  proof (cases "job a")
    case MOVE_CURSOR_JOB
    have "tableOk (xs @ ys)" using ok MOVE_CURSOR_JOB unfolding as by (auto simp: tableOk_def)
    then show ?thesis using Some MOVE_CURSOR_JOB as1 by (simp add: endJob_def)
  next
    case MOVE_CAMERA_JOB
    have "tableOk (xs @ ys)" using ok MOVE_CAMERA_JOB unfolding as by (auto simp: tableOk_def)
    then show ?thesis using Some MOVE_CAMERA_JOB as1 by (simp add: endJob_def)
  next
    case FIRST_PINCHER_JOB
    then show ?thesis using Some endFirstPincher_ok[OF ok a] by (simp add: endJob_def)
  next
    case SECOND_PINCHER_JOB
    then show ?thesis using Some endSecondPincher_ok[OF ok a] by (simp add: endJob_def)
  qed
qed

subsection \<open>Every call keeps the device well formed\<close>

text \<open>
  \<open>deviceOk\<close>: the table is well formed and an armed timer has its buffered touch.
  \<open>good\<close>: a call returned normally, or it was stopped by the TypeError of \<open>start\<close>,
  and the state it left is well formed.
\<close>

lemma good_simps [simp]:
  "good (Ok s) = deviceOk s" "good (Stop e s) = (e = TypeError ''job'' \<and> deviceOk s)"
  by (simp_all add: good_def)

lemma deviceOk_ctl: "tableOk (assignments s') \<Longrightarrow> ctl s' = ctl s \<Longrightarrow> deviceOk s \<Longrightarrow> deviceOk s'"
  by (auto simp: deviceOk_def ctl_def)

lemma tableOk_modify_first:
  assumes "tableOk as" "\<And>a. job (f a) = job a" "\<And>a. touch (f a) = touch a"
    "\<And>a. fieldOk a \<Longrightarrow> P a \<Longrightarrow> fieldOk (f a)"
  shows "tableOk (modify_first P f as)"
  using assms
  by (simp add: tableOk_def jobsOf_modify_first touchesOf_modify_first list_all_modify_first)

lemma settlePendingTap_assignments [simp]: "assignments (settlePendingTap w s) = assignments s"
  by (simp add: settlePendingTap_def Let_def)

lemma settlePendingTap_pending [simp]:
  "pendingFirstTouch (settlePendingTap w s) = pendingFirstTouch s"
  "firstTouchTimeout (settlePendingTap w s) = firstTouchTimeout s"
  "timeouts (settlePendingTap w s) = timeouts s"
  "events (settlePendingTap w s) = events s"
  by (simp_all add: settlePendingTap_def Let_def)

lemma deviceOk_settlePendingTap [simp]: "deviceOk (settlePendingTap w s) = deviceOk s"
  by (simp add: deviceOk_def)

lemma endJob_inv: "deviceOk s \<Longrightarrow> \<exists>s'. endJob t s = Ok s' \<and> deviceOk s'"
  using endJob_ok[of s t] deviceOk_ctl by (auto simp: deviceOk_def)

lemma processTouchStart_inv: "deviceOk s \<Longrightarrow> \<exists>s'. processTouchStart w t allow s = Ok s' \<and> deviceOk s' \<and> ctl s' = ctl s"
  using processTouchStart_ok[of s w t allow] deviceOk_ctl by (metis deviceOk_def)

lemma end_touch_inv:
  assumes "deviceOk s" shows "\<exists>s'. end_touch w t s = Ok s' \<and> deviceOk s'"
proof (cases "isPendingFirstTouch t s")
  case False
  obtain s1 where "endJob t s = Ok s1" "deviceOk s1" using endJob_inv[OF assms] by blast
  then show ?thesis using False
    by (auto simp: end_touch_def andThen_def isPendingFirstTouch_def split: option.splits)
next
  case True
  then obtain p where p: "pendingFirstTouch s = Some p" "ident p = ident t"
    by (auto simp: isPendingFirstTouch_def split: option.splits)
  obtain s1 where s1: "processTouchStart w p True s = Ok s1" "deviceOk s1"
    using processTouchStart_inv[OF assms] by blast
  then have "deviceOk ((clearPendingFirstTouch s1)\<lparr>timeouts := timeouts s1 @ [EndLater t]\<rparr>)"
    by (simp add: deviceOk_def clearPendingFirstTouch_def)
  then show ?thesis using p s1 by (simp add: end_touch_def andThen_def)
qed

lemma movePincher_ok:
  assumes ok: "tableOk (assignments s)"
  shows "\<exists>s'. movePincher t s = Ok s' \<and> tableOk (assignments s') \<and> ctl s' = ctl s"
proof -
  let ?f = "\<lambda>a. a\<lparr>aClientX := Some (clientX t), aClientY := Some (clientY t)\<rparr>"
  let ?as1 = "modify_first (\<lambda>a. ident (touch a) = ident t) ?f (assignments s)"
  have ok1: "tableOk ?as1"
    by (rule tableOk_modify_first[OF ok]) (auto simp: fieldOk_def split: job.splits)
  show ?thesis
  proof (cases "findByJob FIRST_PINCHER_JOB ?as1")
    case None
    then show ?thesis using ok1 by (simp add: movePincher_def Let_def)
  next
    case (Some first)
    note f = this
    show ?thesis
    proof (cases "findByJob SECOND_PINCHER_JOB ?as1")
      case None
      then show ?thesis using ok1 f by (simp add: movePincher_def Let_def)
    next
      case (Some second)
      have "fieldOk first" "job first = FIRST_PINCHER_JOB" "fieldOk second" "job second = SECOND_PINCHER_JOB"
        using findByJob_fieldOk[OF _ f] findByJob_fieldOk[OF _ Some] ok1 by (auto simp: tableOk_def)
      then obtain d where "distanceBetween first second = Some d"
        by (auto simp: fieldOk_def distanceBetween_def)
      then show ?thesis using ok1 f Some by (simp add: movePincher_def Let_def)
    qed
  qed
qed

lemma moveJob_ok:
  assumes ok: "tableOk (assignments s)"
  shows "\<exists>s'. moveJob w t s = Ok s' \<and> tableOk (assignments s') \<and> ctl s' = ctl s"
proof (cases "findByTouch t (assignments s)")
  case None
  then show ?thesis using ok by (auto simp: moveJob_def logged_def split: option.splits)
next
  case (Some a)
  then have a: "a \<in> set (assignments s)" using findByTouch_SomeD by blast
  then have fo: "fieldOk a" using ok by (auto simp: tableOk_def list_all_iff)
  show ?thesis
  proof (cases "job a")
    case MOVE_CURSOR_JOB
    then obtain p where p: "cursorPose a = Some p" using fo by (auto simp: fieldOk_def)
    have "tableOk (modify_first (\<lambda>b. ident (touch b) = ident t)
                     (\<lambda>b. b\<lparr>cursorPose := Some (projectTouch w t)\<rparr>) (assignments s))"
      by (rule tableOk_modify_first[OF ok]) (auto simp: fieldOk_def split: job.splits)
    then show ?thesis using Some MOVE_CURSOR_JOB p by (simp add: moveJob_def)
  next
    case MOVE_CAMERA_JOB
    then obtain d0 d1 x y where p: "aDelta a = Some (d0, d1)" "aClientX a = Some x" "aClientY a = Some y"
      using fo by (auto simp: fieldOk_def)
    have "tableOk (modify_first (\<lambda>b. ident (touch b) = ident t)
                     (\<lambda>b. b\<lparr>aDelta := Some (d0 + (clientX t - x), d1 + (clientY t - y)),
                            aClientX := Some (clientX t), aClientY := Some (clientY t)\<rparr>)
                     (assignments s))"
      by (rule tableOk_modify_first[OF ok]) (auto simp: fieldOk_def split: job.splits)
    then show ?thesis using Some MOVE_CAMERA_JOB p by (simp add: moveJob_def)
  next
    case FIRST_PINCHER_JOB
    then show ?thesis using Some movePincher_ok[OF ok] by (simp add: moveJob_def)
  next
    case SECOND_PINCHER_JOB
    then show ?thesis using Some movePincher_ok[OF ok] by (simp add: moveJob_def)
  qed
qed

lemma moveJob_inv: "deviceOk s \<Longrightarrow> \<exists>s'. moveJob w t s = Ok s' \<and> deviceOk s'"
  using moveJob_ok[of s w t] deviceOk_ctl by (auto simp: deviceOk_def)

lemma move_inv:
  assumes "deviceOk s" shows "\<exists>s'. move w t s = Ok s' \<and> deviceOk s'"
proof (cases "isPendingFirstTouch t s")
  case False
  then show ?thesis using moveJob_inv[OF assms]
    by (auto simp: move_def isPendingFirstTouch_def split: option.splits)
next
  case True
  then obtain p where p: "pendingFirstTouch s = Some p" "ident p = ident t"
    by (auto simp: isPendingFirstTouch_def split: option.splits)
  obtain s1 where s1: "processTouchStart w p False s = Ok s1" "deviceOk s1"
    using processTouchStart_inv[OF assms] by blast
  then have "deviceOk ((clearPendingFirstTouch s1)\<lparr>timeouts := timeouts s1 @ [MoveLater t]\<rparr>)"
    by (simp add: deviceOk_def clearPendingFirstTouch_def)
  then show ?thesis using p s1 by (simp add: move_def andThen_def)
qed

lemma start_good: assumes "deviceOk s" shows "good (start w t s)"
proof (cases "pendingFirstTouch s")
  case None
  show ?thesis
  proof (cases "shouldDelayStartTouch w t")
    case True
    then show ?thesis using None assms by (simp add: start_def deviceOk_def)
  next
    case False
    then show ?thesis using None processTouchStart_inv[OF assms, of w t False]
      by (auto simp: start_def)
  qed
next
  case (Some p)
  show ?thesis
  proof (cases "assign p FIRST_PINCHER_JOB (assignments s)")
    case None
    then show ?thesis using Some assms by (simp add: start_def)
  next
    case (Some as1)
    from assign_SomeD[OF this] have as1: "as1 = assignments s @ [newAssignment p FIRST_PINCHER_JOB]"
      and fresh: "ident p \<notin> set (touchesOf (assignments s))"
         "FIRST_PINCHER_JOB \<notin> set (jobsOf (assignments s))" by auto
    let ?s1 = "clearPendingFirstTouch
                 (s\<lparr>assignments := modify_last (\<lambda>a. a\<lparr>aClientX := Some (clientX p),
                                             aClientY := Some (clientY p)\<rparr>) as1\<rparr>)"
    have "tableOk (assignments ?s1)"
      using assms fresh unfolding as1
      by (auto simp: deviceOk_def tableOk_def fieldOk_def clearPendingFirstTouch_def)
    then have "deviceOk ?s1" by (simp add: deviceOk_def clearPendingFirstTouch_def)
    from processTouchStart_inv[OF this, of w t False]
    show ?thesis using Some \<open>pendingFirstTouch s = Some p\<close> by (auto simp: start_def)
  qed
qed

lemma good_andThen: "good r \<Longrightarrow> (\<And>s. deviceOk s \<Longrightarrow> good (f s)) \<Longrightarrow> good (andThen r f)"
  by (cases r) (simp_all add: andThen_def)

lemma forEach_good:
  assumes "\<And>t s. deviceOk s \<Longrightarrow> good (f t s)"
  shows "deviceOk s \<Longrightarrow> good (forEach f ts s)"
proof (induction ts arbitrary: s)
  case Nil then show ?case by simp
next
  case (Cons t ts)
  show ?case using assms[OF Cons.prems, of t] Cons.IH by (simp add: good_andThen)
qed

lemma move_good: "deviceOk s \<Longrightarrow> good (move w t s)"
  using move_inv[of s w t] by auto

lemma end_touch_good: "deviceOk s \<Longrightarrow> good (end_touch w t s)"
  using end_touch_inv[of s w t] by auto

lemma process_good: "deviceOk s \<Longrightarrow> good (process w ev s)"
  by (cases "etype ev") (simp_all add: process_def forEach_good start_good move_good end_touch_good)

lemma drain_good: "deviceOk s \<Longrightarrow> good (drain w evs s)"
proof (induction evs arbitrary: s)
  case Nil then show ?case by simp
next
  case (Cons ev evs)
  show ?case using process_good[OF Cons.prems, of w ev] Cons.IH by (simp add: good_andThen)
qed

lemma resetDeltas_inv:
  assumes "deviceOk s" shows "\<exists>s'. resetDeltas s = Ok s' \<and> deviceOk s' \<and> events s' = events s"
proof (cases "findByJob MOVE_CAMERA_JOB (assignments s)")
  case None
  then show ?thesis using assms by (simp add: resetDeltas_def deviceOk_def)
next
  case (Some cm)
  have ok: "tableOk (assignments s)" using assms by (simp add: deviceOk_def)
  then have "fieldOk cm" "job cm = MOVE_CAMERA_JOB"
    using findByJob_fieldOk[OF _ Some] by (auto simp: tableOk_def)
  then obtain d where d: "aDelta cm = Some d" by (auto simp: fieldOk_def)
  have "tableOk (modify_first (\<lambda>a. job a = MOVE_CAMERA_JOB) (\<lambda>a. a\<lparr>aDelta := Some (0, 0)\<rparr>)
                   (assignments s))"
    by (rule tableOk_modify_first[OF ok]) (auto simp: fieldOk_def split: job.splits)
  then show ?thesis using Some d assms by (simp add: resetDeltas_def deviceOk_def)
qed

lemma publish_inv: "deviceOk s \<Longrightarrow> deviceOk (snd (publish w s))"
proof -
  assume a: "deviceOk s"
  then have ok: "tableOk (assignments s)" by (simp add: deviceOk_def)
  have "tableOk (modify_first (\<lambda>a. job a = MOVE_CURSOR_JOB) (\<lambda>a. a\<lparr>isFirstFrame := Some False\<rparr>)
                   (assignments s))"
    by (rule tableOk_modify_first[OF ok]) (auto simp: fieldOk_def split: job.splits)
  then show ?thesis using a by (simp add: publish_def Let_def deviceOk_def)
qed

lemma deviceOk_events [simp]: "deviceOk (s\<lparr>events := evs\<rparr>) = deviceOk s"
  by (simp add: deviceOk_def)

lemma deviceOk_timeouts [simp]: "deviceOk (s\<lparr>timeouts := ts\<rparr>) = deviceOk s"
  by (simp add: deviceOk_def)

lemma write_frame_inv: assumes "deviceOk s" shows "deviceOk (stateAfter (write_frame w s))"
proof -
  obtain s1 where s1: "resetDeltas s = Ok s1" "deviceOk s1" using resetDeltas_inv[OF assms] by blast
  have g: "good (drain w (events s1) s1)" using drain_good[OF s1(2)] .
  show ?thesis
  proof (cases "drain w (events s1) s1")
    case (Ok s2)
    then have "deviceOk (s2\<lparr>events := []\<rparr>)" using g by simp
    from publish_inv[OF this, of w] show ?thesis
      using s1 Ok by (auto simp: write_frame_def andThen_def split: prod.splits)
  next
    case (Stop e s2)
    then show ?thesis using g s1 by (simp add: write_frame_def andThen_def)
  qed
qed

lemma firstTouchTimeoutFires_inv:
  assumes "deviceOk s" shows "\<exists>s'. firstTouchTimeoutFires w s = Ok s' \<and> deviceOk s'"
proof (cases "firstTouchTimeout s")
  case False
  then show ?thesis using assms by (simp add: firstTouchTimeoutFires_def)
next
  case True
  then obtain p where p: "pendingFirstTouch s = Some p" using assms by (auto simp: deviceOk_def)
  have "deviceOk (s\<lparr>firstTouchTimeout := False\<rparr>)" using assms by (simp add: deviceOk_def)
  from processTouchStart_inv[OF this, of w p False] obtain s1 where
    s1: "processTouchStart w p False (s\<lparr>firstTouchTimeout := False\<rparr>) = Ok s1" "deviceOk s1"
      "ctl s1 = ctl (s\<lparr>firstTouchTimeout := False\<rparr>)" by blast
  then have "deviceOk (s1\<lparr>pendingFirstTouch := None\<rparr>)" by (simp add: deviceOk_def ctl_def)
  then show ?thesis using True p s1 by (simp add: firstTouchTimeoutFires_def andThen_def)
qed

lemma timeoutRuns_inv:
  assumes "deviceOk s" shows "\<exists>s'. timeoutRuns w s = Ok s' \<and> deviceOk s'"
proof (cases "timeouts s")
  case Nil
  then show ?thesis using assms by (simp add: timeoutRuns_def)
next
  case (Cons x rest)
  have i: "deviceOk (s\<lparr>timeouts := rest\<rparr>)" using assms by simp
  show ?thesis
    using Cons end_touch_inv[OF i] move_inv[OF i] by (cases x) (simp_all add: timeoutRuns_def)
qed

lemma step_inv: "deviceOk s \<Longrightarrow> deviceOk (step a s)"
proof (cases a)
  case (Listener ev) assume "deviceOk s" then show ?thesis using Listener by simp
next
  case (WriteFrame w) assume "deviceOk s" then show ?thesis using WriteFrame write_frame_inv by simp
next
  case (FirstTouchTimer w) assume "deviceOk s"
  then show ?thesis using FirstTouchTimer firstTouchTimeoutFires_inv[of s w] by auto
next
  case (Timeout w) assume "deviceOk s"
  then show ?thesis using Timeout timeoutRuns_inv[of s w] by auto
qed

lemma run_inv: "deviceOk s \<Longrightarrow> deviceOk (run acts s)"
  by (induction acts arbitrary: s) (simp_all add: step_inv)

lemma deviceOk_initial: "deviceOk initial"
  by (simp add: deviceOk_def initial_def tableOk_def)

subsection \<open>The calls of a run\<close>

text \<open>
  In every state of a run from the initial state the table is well formed and an armed
  timer has its buffered touch. From such a state the timer callback and a zero-delay
  callback return normally, a frame write resets the deltas normally, and the only way
  the draining of events ends early is the TypeError of \<open>start\<close> on a refused
  \<^verbatim>\<open>assign\<close>: no call reads an unset field.
\<close>

lemma run_deviceOk: "deviceOk (run acts initial)"
  by (rule run_inv[OF deviceOk_initial])

lemma run_timer_has_touch:
  "firstTouchTimeout (run acts initial) \<Longrightarrow> pendingFirstTouch (run acts initial) \<noteq> None"
  using run_deviceOk[of acts] by (simp add: deviceOk_def)

lemma run_never_stops_on_fields:
  "(\<exists>s'. firstTouchTimeoutFires w (run acts initial) = Ok s') \<and>
   (\<exists>s'. timeoutRuns w (run acts initial) = Ok s') \<and>
   (\<exists>s'. resetDeltas (run acts initial) = Ok s') \<and>
   (\<forall>e s'. drain w evs (run acts initial) = Stop e s' \<longrightarrow> e = TypeError ''job'') \<and>
   (\<forall>e s'. write_frame w (run acts initial) = Aborted e s' \<longrightarrow> e = TypeError ''job'')"
proof -
  let ?s = "run acts initial"
  have ok: "deviceOk ?s" by (rule run_deviceOk)
  have a: "\<exists>s'. firstTouchTimeoutFires w ?s = Ok s'"
    using firstTouchTimeoutFires_inv[OF ok] by blast
  have b: "\<exists>s'. timeoutRuns w ?s = Ok s'" using timeoutRuns_inv[OF ok] by blast
  obtain s1 where s1: "resetDeltas ?s = Ok s1" "deviceOk s1" "events s1 = events ?s"
    using resetDeltas_inv[OF ok] by blast
  have d: "\<forall>e s'. drain w evs ?s = Stop e s' \<longrightarrow> e = TypeError ''job''"
    using drain_good[OF ok, of w evs] by auto
  have "good (drain w (events s1) s1)" by (rule drain_good[OF s1(2)])
  then have e: "\<forall>e s'. write_frame w ?s = Aborted e s' \<longrightarrow> e = TypeError ''job''"
    using s1(1)
    by (cases "drain w (events s1) s1")
       (auto simp: write_frame_def andThen_def split: prod.splits)
  from a b s1(1) d e show ?thesis by blast
qed

subsection \<open>Evaluating the device on the example data\<close>

lemmas demo_defs = demoEnv_def touchAt_def touchA_def touchB_def touchC_def touchD_def touchU_def
  touchV_def touchI_def touchP_def touchP2_def eventOf_def

lemmas device_defs = write_frame_def resetDeltas_def publish_def process_def start_def move_def
  moveJob_def movePincher_def end_touch_def endJob_def endFirstPincher_def endSecondPincher_def
  settlePendingTap_def processTouchStart_def resolveJob_def assignSecondPincher_def
  takeFirstPincher_def updatePendingTap_def andThen_def clearPendingFirstTouch_def logged_def
  assign_def touchIsAssigned_def jobIsAssigned_def findByJob_def findByTouch_def newAssignment_def
  distanceBetween_def distance_def isCursorOverInteractable_def shouldDelayStartTouch_def
  projectTouch_def zeroPinch_def initial_def firstTouchTimeoutFires_def timeoutRuns_def
  isPendingFirstTouch_def Let_def

section \<open>The claims\<close>

text \<open>
  C3. In every state the device reaches from its initial state, whatever events are
  queued, frames written and timers run, each touch identity appears in at most one
  assignment of the table and each job appears in at most one assignment.
\<close>

theorem reachable_assignments_unique:
  "distinct (touchesOf (assignments (run acts initial))) \<and>
   distinct (jobsOf (assignments (run acts initial)))"
  using run_inv[OF deviceOk_initial, of acts] by (simp add: deviceOk_def tableOk_def)

theorem reachable_assignments_unique_witness:
  "distinct (touchesOf (assignments
     (run [Listener (eventOf touchstart [touchA, touchB]), WriteFrame demoEnv] initial))) \<and>
   distinct (jobsOf (assignments
     (run [Listener (eventOf touchstart [touchA, touchB]), WriteFrame demoEnv] initial))) \<and>
   jobsOf (assignments
     (run [Listener (eventOf touchstart [touchA, touchB]), WriteFrame demoEnv] initial))
     = [FIRST_PINCHER_JOB, SECOND_PINCHER_JOB]"
  using reachable_assignments_unique
    [of "[Listener (eventOf touchstart [touchA, touchB]), WriteFrame demoEnv]"]
  by (simp add: device_defs demo_defs jobsOf_def)

text \<open>
  C2. In every state the device reaches from its initial state, a SecondPincher
  assignment is in the table only if a FirstPincher assignment is in it too.
\<close>

theorem reachable_second_pincher_has_first:
  "jobIsAssigned SECOND_PINCHER_JOB (assignments (run acts initial)) \<Longrightarrow>
   jobIsAssigned FIRST_PINCHER_JOB (assignments (run acts initial))"
  using run_inv[OF deviceOk_initial, of acts]
  by (simp add: deviceOk_def tableOk_def jobIsAssigned_iff)

theorem reachable_second_pincher_has_first_witness:
  "jobIsAssigned SECOND_PINCHER_JOB (assignments
     (run [Listener (eventOf touchstart [touchA, touchB]), WriteFrame demoEnv] initial)) \<and>
   jobIsAssigned FIRST_PINCHER_JOB (assignments
     (run [Listener (eventOf touchstart [touchA, touchB]), WriteFrame demoEnv] initial))"
proof -
  have h: "jobIsAssigned SECOND_PINCHER_JOB (assignments
     (run [Listener (eventOf touchstart [touchA, touchB]), WriteFrame demoEnv] initial))"
    by (simp add: device_defs demo_defs)
  from reachable_second_pincher_has_first[OF h] h show ?thesis by blast
qed

text \<open>
  C8. A touch-start for a touch whose identity is already in the assignment table is
  reported as an error and given up: \<open>processTouchStart\<close> returns normally, and the state
  it leaves differs from the one it found by the line on the console only; the
  assignment table, the pinch state and the pending tap (start timestamp and maximum
  touch count) are those of before.
\<close>

theorem processTouchStart_assigned_aborts:
  assumes "touchIsAssigned t (assignments s)"
  shows "\<exists>s'. processTouchStart w t allowMoveToNonInteractable s = Ok s' \<and>
           s' = s\<lparr>console := console s @ [Error ''touch already has a job'']\<rparr> \<and>
           assignments s' = assignments s \<and> pinch s' = pinch s \<and>
           pendingTap s' = pendingTap s"
  using assms by (simp add: processTouchStart_def logged_def)

theorem processTouchStart_assigned_aborts_witness:
  "touchIsAssigned touchA (assignments
     (run [Listener (eventOf touchstart [touchA, touchB]), WriteFrame demoEnv] initial)) \<and>
   processTouchStart demoEnv touchA False
     (run [Listener (eventOf touchstart [touchA, touchB]), WriteFrame demoEnv] initial) =
   Ok ((run [Listener (eventOf touchstart [touchA, touchB]), WriteFrame demoEnv] initial)
         \<lparr>console := [Error ''touch already has a job'']\<rparr>)"
proof -
  let ?s = "run [Listener (eventOf touchstart [touchA, touchB]), WriteFrame demoEnv] initial"
  have h: "touchIsAssigned touchA (assignments ?s)"
    by (simp add: device_defs demo_defs)
  have c: "console ?s = []"
    by (simp add: device_defs demo_defs)
  from processTouchStart_assigned_aborts[OF h, of demoEnv False] h c
  show ?thesis by simp
qed

text \<open>
  C10. Whenever the resolution of a touch-start comes to the branch that assigns the
  second pincher (the touch is unassigned, neither the CursorMove branch nor the
  CameraMove branch was taken, and no SecondPincher exists), a FirstPincher or a
  CameraMove is in the table. So the lookup for the assignment that becomes
  \<^verbatim>\<open>first\<close> finds one, and \<open>processTouchStart\<close> never fails on an undefined camera mover.
\<close>

theorem second_pincher_branch_finds_first:
  assumes "\<not> touchIsAssigned t (assignments s)"
    and "\<not> (\<not> jobIsAssigned FIRST_PINCHER_JOB (assignments s) \<and>
            \<not> jobIsAssigned MOVE_CURSOR_JOB (assignments s) \<and>
            (allowMoveToNonInteractable \<or> isCursorOverInteractable w t))"
    and "\<not> (\<not> jobIsAssigned FIRST_PINCHER_JOB (assignments s) \<and>
            \<not> jobIsAssigned MOVE_CAMERA_JOB (assignments s))"
    and "\<not> jobIsAssigned SECOND_PINCHER_JOB (assignments s)"
  shows "(jobIsAssigned FIRST_PINCHER_JOB (assignments s) \<or>
          jobIsAssigned MOVE_CAMERA_JOB (assignments s)) \<and>
         (\<exists>a. (if jobIsAssigned FIRST_PINCHER_JOB (assignments s)
               then findByJob FIRST_PINCHER_JOB (assignments s)
               else findByJob MOVE_CAMERA_JOB (assignments s)) = Some a) \<and>
         (\<forall>s'. processTouchStart w t allowMoveToNonInteractable s \<noteq>
                  Stop (TypeError ''cameraMover'') s')"
proof -
  have has: "jobIsAssigned FIRST_PINCHER_JOB (assignments s) \<or>
             jobIsAssigned MOVE_CAMERA_JOB (assignments s)"
    using assms(3) by blast
  then have look: "\<exists>a. (if jobIsAssigned FIRST_PINCHER_JOB (assignments s)
               then findByJob FIRST_PINCHER_JOB (assignments s)
               else findByJob MOVE_CAMERA_JOB (assignments s)) = Some a"
    by (auto simp: jobIsAssigned_def)
  have tk: "\<And>s1. takeFirstPincher s \<noteq> Inl (TypeError ''cameraMover'', s1)"
    using look by (auto simp: takeFirstPincher_def jobIsAssigned_def Let_def split: option.splits)
  have "\<And>s'. assignSecondPincher t s \<noteq> Stop (TypeError ''cameraMover'') s'"
    using tk by (auto simp: assignSecondPincher_def Let_def split: sum.splits option.splits prod.splits)
  then have "\<And>s'. resolveJob w t allowMoveToNonInteractable s \<noteq> Stop (TypeError ''cameraMover'') s'"
    using assms(2,3,4) by (auto simp: resolveJob_def Let_def)
  then have "\<And>s'. processTouchStart w t allowMoveToNonInteractable s \<noteq>
                  Stop (TypeError ''cameraMover'') s'"
    by (auto simp: processTouchStart_def andThen_def split: outcome.splits)
  with has look show ?thesis by blast
qed

theorem second_pincher_branch_finds_first_witness:
  "\<not> touchIsAssigned touchC (assignments
      (run [Listener (eventOf touchstart [touchV]), WriteFrame demoEnv] initial)) \<and>
   jobsOf (assignments
      (run [Listener (eventOf touchstart [touchV]), WriteFrame demoEnv] initial)) = [MOVE_CAMERA_JOB] \<and>
   \<not> isCursorOverInteractable demoEnv touchC \<and>
   (jobIsAssigned FIRST_PINCHER_JOB (assignments
      (run [Listener (eventOf touchstart [touchV]), WriteFrame demoEnv] initial)) \<or>
    jobIsAssigned MOVE_CAMERA_JOB (assignments
      (run [Listener (eventOf touchstart [touchV]), WriteFrame demoEnv] initial))) \<and>
   jobsOf (assignments (stateOf (processTouchStart demoEnv touchC False
      (run [Listener (eventOf touchstart [touchV]), WriteFrame demoEnv] initial)))) =
     [FIRST_PINCHER_JOB, SECOND_PINCHER_JOB]"
proof -
  let ?s = "run [Listener (eventOf touchstart [touchV]), WriteFrame demoEnv] initial"
  have h1: "\<not> touchIsAssigned touchC (assignments ?s)"
    by (simp add: device_defs demo_defs)
  have h2: "\<not> (\<not> jobIsAssigned FIRST_PINCHER_JOB (assignments ?s) \<and>
            \<not> jobIsAssigned MOVE_CURSOR_JOB (assignments ?s) \<and>
            (False \<or> isCursorOverInteractable demoEnv touchC))"
    by (simp add: device_defs demo_defs)
  have h3: "\<not> (\<not> jobIsAssigned FIRST_PINCHER_JOB (assignments ?s) \<and>
            \<not> jobIsAssigned MOVE_CAMERA_JOB (assignments ?s))"
    by (simp add: device_defs demo_defs)
  have h4: "\<not> jobIsAssigned SECOND_PINCHER_JOB (assignments ?s)"
    by (simp add: device_defs demo_defs)
  have j: "jobsOf (assignments ?s) = [MOVE_CAMERA_JOB]"
    by (simp add: device_defs demo_defs jobsOf_def)
  have i: "\<not> isCursorOverInteractable demoEnv touchC"
    by (simp add: device_defs demo_defs)
  have r: "jobsOf (assignments (stateOf (processTouchStart demoEnv touchC False ?s))) =
     [FIRST_PINCHER_JOB, SECOND_PINCHER_JOB]"
    by (simp add: device_defs demo_defs jobsOf_def)
  from second_pincher_branch_finds_first[OF h1 h2 h3 h4] h1 j i r
  show ?thesis by blast
qed

text \<open>
  C1, as stated (CursorMove and CameraMove are never assigned at the same time), fails:
  two touches land on the UI, the first on an interactable element, and the frame that
  drains them leaves the first with CursorMove and the second with CameraMove.
\<close>

theorem cursor_and_camera_coexist:
  "jobIsAssigned MOVE_CURSOR_JOB (assignments
     (run [Listener (eventOf touchstart [touchU, touchV]), WriteFrame demoEnv] initial)) \<and>
   jobIsAssigned MOVE_CAMERA_JOB (assignments
     (run [Listener (eventOf touchstart [touchU, touchV]), WriteFrame demoEnv] initial))"
  by (simp add: device_defs demo_defs)

text \<open>
  C1, amended. One resolution of a touch-start adds at most one of the two jobs: from a
  state in which neither CursorMove nor CameraMove is assigned it never leaves both
  assigned. The two do come together over two touches: a touch that starts while
  CursorMove is assigned, with no FirstPincher and no CameraMove in the table, is given
  CameraMove and CursorMove stays.
\<close>

theorem touch_start_primary_jobs:
  "(\<not> jobIsAssigned MOVE_CURSOR_JOB (assignments s) \<and>
    \<not> jobIsAssigned MOVE_CAMERA_JOB (assignments s) \<longrightarrow>
    \<not> (jobIsAssigned MOVE_CURSOR_JOB
          (assignments (stateOf (processTouchStart w t allowMoveToNonInteractable s))) \<and>
       jobIsAssigned MOVE_CAMERA_JOB
          (assignments (stateOf (processTouchStart w t allowMoveToNonInteractable s))))) \<and>
   (jobIsAssigned MOVE_CURSOR_JOB (assignments s) \<and>
    \<not> jobIsAssigned FIRST_PINCHER_JOB (assignments s) \<and>
    \<not> jobIsAssigned MOVE_CAMERA_JOB (assignments s) \<and>
    \<not> touchIsAssigned t (assignments s) \<longrightarrow>
    (\<exists>s'. processTouchStart w t allowMoveToNonInteractable s = Ok s' \<and>
          assignments s' =
            assignments s @
            [(newAssignment t MOVE_CAMERA_JOB)
               \<lparr>aClientX := Some (clientX t), aClientY := Some (clientY t),
                aDelta := Some (0, 0)\<rparr>] \<and>
          jobIsAssigned MOVE_CURSOR_JOB (assignments s') \<and>
          jobIsAssigned MOVE_CAMERA_JOB (assignments s')))"
proof (intro conjI impI)
  assume a: "\<not> jobIsAssigned MOVE_CURSOR_JOB (assignments s) \<and>
             \<not> jobIsAssigned MOVE_CAMERA_JOB (assignments s)"
  let ?r = "processTouchStart w t allowMoveToNonInteractable s"
  have "jobsOf (assignments (stateOf ?r)) = jobsOf (assignments s) \<or>
        jobsOf (assignments (stateOf ?r)) = jobsOf (assignments s) @ [MOVE_CURSOR_JOB] \<or>
        jobsOf (assignments (stateOf ?r)) = jobsOf (assignments s) @ [MOVE_CAMERA_JOB] \<or>
        jobsOf (assignments (stateOf ?r)) = jobsOf (assignments s) @ [SECOND_PINCHER_JOB]"
    using a
    by (auto simp: processTouchStart_def resolveJob_def assignSecondPincher_def
          takeFirstPincher_def andThen_def logged_def assign_def jobIsAssigned_def Let_def
          split: option.splits)
  then show "\<not> (jobIsAssigned MOVE_CURSOR_JOB (assignments (stateOf ?r)) \<and>
              jobIsAssigned MOVE_CAMERA_JOB (assignments (stateOf ?r)))"
    using a by (auto simp: jobIsAssigned_iff)
next
  assume a: "jobIsAssigned MOVE_CURSOR_JOB (assignments s) \<and>
    \<not> jobIsAssigned FIRST_PINCHER_JOB (assignments s) \<and>
    \<not> jobIsAssigned MOVE_CAMERA_JOB (assignments s) \<and>
    \<not> touchIsAssigned t (assignments s)"
  then show "\<exists>s'. processTouchStart w t allowMoveToNonInteractable s = Ok s' \<and>
          assignments s' =
            assignments s @
            [(newAssignment t MOVE_CAMERA_JOB)
               \<lparr>aClientX := Some (clientX t), aClientY := Some (clientY t),
                aDelta := Some (0, 0)\<rparr>] \<and>
          jobIsAssigned MOVE_CURSOR_JOB (assignments s') \<and>
          jobIsAssigned MOVE_CAMERA_JOB (assignments s')"
    by (simp add: processTouchStart_def resolveJob_def andThen_def assign_def
          jobIsAssigned_iff)
qed

theorem touch_start_primary_jobs_witness:
  "(\<not> jobIsAssigned MOVE_CURSOR_JOB (assignments initial) \<and>
    \<not> jobIsAssigned MOVE_CAMERA_JOB (assignments initial)) \<and>
   jobsOf (assignments (stateOf (processTouchStart demoEnv touchU False initial))) =
     [MOVE_CURSOR_JOB] \<and>
   \<not> (jobIsAssigned MOVE_CURSOR_JOB
         (assignments (stateOf (processTouchStart demoEnv touchU False initial))) \<and>
      jobIsAssigned MOVE_CAMERA_JOB
         (assignments (stateOf (processTouchStart demoEnv touchU False initial)))) \<and>
   jobIsAssigned MOVE_CURSOR_JOB
     (assignments (stateOf (processTouchStart demoEnv touchU False initial))) \<and>
   \<not> touchIsAssigned touchV
     (assignments (stateOf (processTouchStart demoEnv touchU False initial))) \<and>
   jobsOf (assignments (stateOf (processTouchStart demoEnv touchV False
     (stateOf (processTouchStart demoEnv touchU False initial))))) =
     [MOVE_CURSOR_JOB, MOVE_CAMERA_JOB]"
proof -
  let ?s1 = "stateOf (processTouchStart demoEnv touchU False initial)"
  have h0: "\<not> jobIsAssigned MOVE_CURSOR_JOB (assignments initial) \<and>
            \<not> jobIsAssigned MOVE_CAMERA_JOB (assignments initial)"
    by (simp add: device_defs)
  have j1: "jobsOf (assignments ?s1) = [MOVE_CURSOR_JOB]"
    by (simp add: device_defs demo_defs jobsOf_def)
  have h1: "jobIsAssigned MOVE_CURSOR_JOB (assignments ?s1) \<and>
    \<not> jobIsAssigned FIRST_PINCHER_JOB (assignments ?s1) \<and>
    \<not> jobIsAssigned MOVE_CAMERA_JOB (assignments ?s1) \<and>
    \<not> touchIsAssigned touchV (assignments ?s1)"
    by (simp add: device_defs demo_defs)
  have j2: "jobsOf (assignments (stateOf (processTouchStart demoEnv touchV False ?s1))) =
     [MOVE_CURSOR_JOB, MOVE_CAMERA_JOB]"
    by (simp add: device_defs demo_defs jobsOf_def)
  from touch_start_primary_jobs[of initial demoEnv touchU False] h0
  have "\<not> (jobIsAssigned MOVE_CURSOR_JOB (assignments ?s1) \<and>
           jobIsAssigned MOVE_CAMERA_JOB (assignments ?s1))" by blast
  with h0 j1 h1 j2 show ?thesis by blast
qed

text \<open>
  C9, as stated (a first touch on an interactable surface that is not UI resolves at
  once, without the delay buffer), fails: in the example scene a touch on the
  interactable world object at x = 250 is buffered by \<open>start\<close>, and no CursorMove is
  assigned.
\<close>

theorem interactable_world_touch_is_buffered:
  "isCursorOverInteractable demoEnv touchI \<and>
   getTouchIntersection demoEnv touchI = Some \<lparr>matches_ui = False, matches_interactable = True\<rparr> \<and>
   start demoEnv touchI initial =
     Ok (initial\<lparr>pendingFirstTouch := Some touchI, firstTouchTimeout := True\<rparr>) \<and>
   \<not> jobIsAssigned MOVE_CURSOR_JOB (assignments (stateOf (start demoEnv touchI initial)))"
  by (simp add: device_defs demo_defs)


text \<open>
  C5. The code does not do what the claim says when a pinch is already running. Touches
  A, B, C and D land on the world. A is buffered and becomes the first pincher when B
  lands, B becomes the second pincher, C is buffered. When D lands, \<open>start\<close> assigns
  FirstPincher to the buffered touch C as the claim says, but \<^verbatim>\<open>assign\<close> refuses the taken
  job and \<open>start\<close> ends in a TypeError on the undefined result: C has no assignment, D is
  never resolved, and C stays buffered. When the four touches arrive in one event the
  frame write is aborted before it clears its queue, and the next frame write is
  aborted in the same way.
\<close>

theorem second_pinch_start_throws:
  "pendingFirstTouch
     (run [Listener (eventOf touchstart [touchA, touchB, touchC]), WriteFrame demoEnv] initial)
     = Some touchC \<and>
   jobsOf (assignments
     (run [Listener (eventOf touchstart [touchA, touchB, touchC]), WriteFrame demoEnv] initial))
     = [FIRST_PINCHER_JOB, SECOND_PINCHER_JOB] \<and>
   start demoEnv touchD
     (run [Listener (eventOf touchstart [touchA, touchB, touchC]), WriteFrame demoEnv] initial)
     = Stop (TypeError ''job'')
         (run [Listener (eventOf touchstart [touchA, touchB, touchC]), WriteFrame demoEnv]
            initial) \<and>
   \<not> touchIsAssigned touchC (assignments
     (run [Listener (eventOf touchstart [touchA, touchB, touchC]), WriteFrame demoEnv] initial)) \<and>
   \<not> touchIsAssigned touchD (assignments
     (run [Listener (eventOf touchstart [touchA, touchB, touchC]), WriteFrame demoEnv] initial)) \<and>
   frameOf (write_frame demoEnv
     (run [Listener (eventOf touchstart [touchA, touchB, touchC, touchD])] initial)) = None \<and>
   events (run [Listener (eventOf touchstart [touchA, touchB, touchC, touchD]),
                WriteFrame demoEnv] initial)
     = [eventOf touchstart [touchA, touchB, touchC, touchD]] \<and>
   write_frame demoEnv
     (run [Listener (eventOf touchstart [touchA, touchB, touchC, touchD]),
           WriteFrame demoEnv] initial)
     = Aborted (TypeError ''job'')
         (run [Listener (eventOf touchstart [touchA, touchB, touchC, touchD]),
               WriteFrame demoEnv] initial)"
  by (simp add: device_defs demo_defs jobsOf_def)

text \<open>
  A touch A is buffered, no pincher is assigned, neither A nor the new touch B has an
  assignment, and A and B are different touches. Then \<open>start\<close> of B assigns FirstPincher
  to A at its buffered coordinates without consulting the priority policy, cancels the
  timer and empties the buffer, then resolves B by \<open>processTouchStart\<close>, which assigns
  SecondPincher to B and sets the pinch state to
  \<open>{initialDistance: d, currentDistance: d, delta: 0}\<close>, where \<open>d\<close> is the Euclidean distance
  between the coordinates of A and B.
\<close>

lemma buffered_touch_becomes_first_pincher:
  assumes "pendingFirstTouch s = Some A"
    and "\<not> jobIsAssigned FIRST_PINCHER_JOB (assignments s)"
    and "\<not> jobIsAssigned SECOND_PINCHER_JOB (assignments s)"
    and "\<not> touchIsAssigned A (assignments s)"
    and "\<not> touchIsAssigned B (assignments s)"
    and "ident A \<noteq> ident B"
  shows "\<exists>s' d.
           start w B s = Ok s' \<and>
           start w B s =
             processTouchStart w B False
               (clearPendingFirstTouch
                  (s\<lparr>assignments := assignments s @
                        [(newAssignment A FIRST_PINCHER_JOB)
                           \<lparr>aClientX := Some (clientX A), aClientY := Some (clientY A)\<rparr>]\<rparr>)) \<and>
           assignments s' =
             assignments s @
               [(newAssignment A FIRST_PINCHER_JOB)
                  \<lparr>aClientX := Some (clientX A), aClientY := Some (clientY A)\<rparr>,
                (newAssignment B SECOND_PINCHER_JOB)
                  \<lparr>aClientX := Some (clientX B), aClientY := Some (clientY B)\<rparr>] \<and>
           d = sqrt ((clientX A - clientX B)\<^sup>2 + (clientY A - clientY B)\<^sup>2) \<and>
           pinch s' = \<lparr>initialDistance = d, currentDistance = d, delta = 0\<rparr> \<and>
           pendingFirstTouch s' = None \<and> firstTouchTimeout s' = False"
proof -
  let ?first = "(newAssignment A FIRST_PINCHER_JOB)
                  \<lparr>aClientX := Some (clientX A), aClientY := Some (clientY A)\<rparr>"
  let ?second = "(newAssignment B SECOND_PINCHER_JOB)
                  \<lparr>aClientX := Some (clientX B), aClientY := Some (clientY B)\<rparr>"
  let ?as1 = "assignments s @ [?first]"
  let ?s1 = "clearPendingFirstTouch (s\<lparr>assignments := ?as1\<rparr>)"
  let ?d = "sqrt ((clientX A - clientX B)\<^sup>2 + (clientY A - clientY B)\<^sup>2)"
  have n: "ident A \<notin> set (touchesOf (assignments s))" "ident B \<notin> set (touchesOf (assignments s))"
    "FIRST_PINCHER_JOB \<notin> set (jobsOf (assignments s))"
    "SECOND_PINCHER_JOB \<notin> set (jobsOf (assignments s))"
    using assms by (simp_all add: touchIsAssigned_iff jobIsAssigned_iff)
  have asg: "assign A FIRST_PINCHER_JOB (assignments s) =
               Some (assignments s @ [newAssignment A FIRST_PINCHER_JOB])"
    using n by (simp add: assign_def touchIsAssigned_iff jobIsAssigned_iff)
  have st: "start w B s = processTouchStart w B False ?s1"
    using assms(1) asg by (simp add: start_def Let_def)
  have fnd: "findByJob FIRST_PINCHER_JOB ?as1 = Some ?first"
    using n by (simp add: findByJob_snoc)
  have tk: "takeFirstPincher ?s1 = Inr (?first, ?s1)"
    using fnd by (simp add: takeFirstPincher_def clearPendingFirstTouch_def)
  have asg2: "assign B SECOND_PINCHER_JOB ?as1 = Some (?as1 @ [newAssignment B SECOND_PINCHER_JOB])"
    using n assms(6) by (simp add: assign_def touchIsAssigned_iff jobIsAssigned_iff)
  have db: "distanceBetween ?first ?second = Some ?d"
    by (simp add: distanceBetween_def distance_def Let_def power2_eq_square)
  let ?s2 = "?s1\<lparr>assignments := ?as1 @ [?second],
                 pinch := \<lparr>initialDistance = ?d, currentDistance = ?d, delta = 0\<rparr>\<rparr>"
  have sec: "assignSecondPincher B ?s1 = Ok ?s2"
    using asg2 db unfolding assignSecondPincher_def tk
    by (simp add: clearPendingFirstTouch_def Let_def)
  have res: "resolveJob w B False ?s1 = Ok ?s2"
    using n sec by (simp add: resolveJob_def jobIsAssigned_iff clearPendingFirstTouch_def)
  have "processTouchStart w B False ?s1 = Ok (updatePendingTap w ?s2)"
    using n assms(6) res
    by (simp add: processTouchStart_def andThen_def touchIsAssigned_iff clearPendingFirstTouch_def)
  then show ?thesis
    using st by (simp add: updatePendingTap_def Let_def clearPendingFirstTouch_def)
qed

lemma buffered_touch_becomes_first_pincher_witness:
  "pendingFirstTouch (stateOf (start demoEnv touchA initial)) = Some touchA \<and>
   \<not> jobIsAssigned FIRST_PINCHER_JOB (assignments (stateOf (start demoEnv touchA initial))) \<and>
   \<not> jobIsAssigned SECOND_PINCHER_JOB (assignments (stateOf (start demoEnv touchA initial))) \<and>
   \<not> touchIsAssigned touchA (assignments (stateOf (start demoEnv touchA initial))) \<and>
   \<not> touchIsAssigned touchB (assignments (stateOf (start demoEnv touchA initial))) \<and>
   ident touchA \<noteq> ident touchB \<and>
   (\<exists>s'. start demoEnv touchB (stateOf (start demoEnv touchA initial)) = Ok s' \<and>
         jobsOf (assignments s') = [FIRST_PINCHER_JOB, SECOND_PINCHER_JOB] \<and>
         touchesOf (assignments s') = [1, 2] \<and>
         pinch s' = \<lparr>initialDistance = 5, currentDistance = 5, delta = 0\<rparr> \<and>
         pendingFirstTouch s' = None \<and> firstTouchTimeout s' = False)"
proof -
  let ?s = "stateOf (start demoEnv touchA initial)"
  have h: "pendingFirstTouch ?s = Some touchA"
    "\<not> jobIsAssigned FIRST_PINCHER_JOB (assignments ?s)"
    "\<not> jobIsAssigned SECOND_PINCHER_JOB (assignments ?s)"
    "\<not> touchIsAssigned touchA (assignments ?s)"
    "\<not> touchIsAssigned touchB (assignments ?s)"
    "ident touchA \<noteq> ident touchB"
    by (simp_all add: device_defs demo_defs)
  have e: "assignments ?s = []" by (simp add: device_defs demo_defs)
  have d: "sqrt ((clientX touchA - clientX touchB)\<^sup>2 + (clientY touchA - clientY touchB)\<^sup>2) = 5"
    by (simp add: demo_defs)
  from buffered_touch_becomes_first_pincher[OF h, of demoEnv]
  have "\<exists>s'. start demoEnv touchB ?s = Ok s' \<and>
         jobsOf (assignments s') = [FIRST_PINCHER_JOB, SECOND_PINCHER_JOB] \<and>
         touchesOf (assignments s') = [1, 2] \<and>
         pinch s' = \<lparr>initialDistance = 5, currentDistance = 5, delta = 0\<rparr> \<and>
         pendingFirstTouch s' = None \<and> firstTouchTimeout s' = False"
    unfolding e d by (auto simp: jobsOf_def touchesOf_def demo_defs)
  with h show ?thesis by blast
qed

subsection \<open>Removing an assignment\<close>

lemma distinct_touchesOf_imp: "distinct (touchesOf as) \<Longrightarrow> distinct as"
  by (simp add: touchesOf_def distinct_map)

lemma unassign_remove1:
  assumes "distinct (touchesOf as)" "a \<in> set as"
  shows "unassign (touch a) (job a) as = remove1 a as"
proof -
  obtain xs ys where as: "as = xs @ a # ys" "unassign (touch a) (job a) as = xs @ ys"
    using unassign_at[OF assms] by blast
  have "a \<notin> set xs" using distinct_touchesOf_imp[OF assms(1)] unfolding as(1) by simp
  then show ?thesis using as by (simp add: remove1_append)
qed

lemma touchesOf_remove1:
  "distinct (touchesOf as) \<Longrightarrow> a \<in> set as \<Longrightarrow>
   touchesOf (remove1 a as) = remove1 (ident (touch a)) (touchesOf as)"
proof (induction as)
  case Nil then show ?case by simp
next
  case (Cons x as)
  show ?case
  proof (cases "x = a")
    case True then show ?thesis by simp
  next
    case False
    then have "a \<in> set as" using Cons.prems by simp
    then have "ident (touch a) \<in> set (touchesOf as)" by (simp add: touchesOf_def)
    then have "ident (touch x) \<noteq> ident (touch a)" using Cons.prems(1) by auto
    then show ?thesis using False Cons \<open>a \<in> set as\<close> by simp
  qed
qed

lemma jobsOf_remove1:
  "distinct (jobsOf as) \<Longrightarrow> a \<in> set as \<Longrightarrow>
   jobsOf (remove1 a as) = remove1 (job a) (jobsOf as)"
proof (induction as)
  case Nil then show ?case by simp
next
  case (Cons x as)
  show ?case
  proof (cases "x = a")
    case True then show ?thesis by simp
  next
    case False
    then have "a \<in> set as" using Cons.prems by simp
    then have "job a \<in> set (jobsOf as)" by (simp add: jobsOf_def)
    then have "job x \<noteq> job a" using Cons.prems(1) by auto
    then show ?thesis using False Cons \<open>a \<in> set as\<close> by simp
  qed
qed

lemma findByJob_remove1_other: "job a \<noteq> j \<Longrightarrow> findByJob j (remove1 a as) = findByJob j as"
  by (induction as) (auto simp: findByJob_def)

text \<open>
  C4. The touch of a pincher lifts (and is not the buffered touch, whose lift is
  re-dispatched). If it was the first pincher: its assignment is removed, the pinch
  state is all zeros, and a second pincher, if there is one, is removed and its touch is
  assigned anew with the same coordinates, as FirstPincher when a CameraMove was in the
  table, else as CameraMove with delta [0, 0]. If it was the second pincher: its
  assignment is removed, the pinch state is all zeros, and a first pincher that remains
  while no CameraMove exists is removed and its touch is assigned CameraMove with the
  same coordinates and delta [0, 0]. The table is one in which no touch and no job
  occurs twice (an invariant of the device).
\<close>

theorem pincher_end_reassigns:
  assumes dt: "distinct (touchesOf (assignments s))"
    and dj: "distinct (jobsOf (assignments s))"
    and np: "\<not> isPendingFirstTouch t s"
    and fa: "findByTouch t (assignments s) = Some a"
  shows "(job a = FIRST_PINCHER_JOB \<longrightarrow>
           (\<exists>s'. end_touch w t s = Ok s' \<and>
                 pinch s' = \<lparr>initialDistance = 0, currentDistance = 0, delta = 0\<rparr> \<and>
                 assignments s' =
                   (case findByJob SECOND_PINCHER_JOB (assignments s) of
                      None \<Rightarrow> remove1 a (assignments s)
                    | Some second \<Rightarrow>
                        remove1 second (remove1 a (assignments s)) @
                        [if jobIsAssigned MOVE_CAMERA_JOB (assignments s)
                         then (newAssignment (touch second) FIRST_PINCHER_JOB)
                                \<lparr>aClientX := aClientX second, aClientY := aClientY second\<rparr>
                         else (newAssignment (touch second) MOVE_CAMERA_JOB)
                                \<lparr>aClientX := aClientX second, aClientY := aClientY second,
                                 aDelta := Some (0, 0)\<rparr>]))) \<and>
         (job a = SECOND_PINCHER_JOB \<longrightarrow>
           (\<exists>s'. end_touch w t s = Ok s' \<and>
                 pinch s' = \<lparr>initialDistance = 0, currentDistance = 0, delta = 0\<rparr> \<and>
                 assignments s' =
                   (case findByJob FIRST_PINCHER_JOB (assignments s) of
                      None \<Rightarrow> remove1 a (assignments s)
                    | Some first \<Rightarrow>
                        if jobIsAssigned MOVE_CAMERA_JOB (assignments s)
                        then remove1 a (assignments s)
                        else remove1 first (remove1 a (assignments s)) @
                             [(newAssignment (touch first) MOVE_CAMERA_JOB)
                                \<lparr>aClientX := aClientX first, aClientY := aClientY first,
                                 aDelta := Some (0, 0)\<rparr>])))"
proof -
  let ?as = "assignments s"
  let ?as1 = "remove1 a ?as"
  have a_in: "a \<in> set ?as" using findByTouch_SomeD[OF fa] by simp
  have un1: "unassign (touch a) (job a) ?as = ?as1" by (rule unassign_remove1[OF dt a_in])
  have t1: "touchesOf ?as1 = remove1 (ident (touch a)) (touchesOf ?as)"
    by (rule touchesOf_remove1[OF dt a_in])
  have j1: "jobsOf ?as1 = remove1 (job a) (jobsOf ?as)"
    by (rule jobsOf_remove1[OF dj a_in])
  have dt1: "distinct (touchesOf ?as1)" using dt t1 by simp
  have dj1: "distinct (jobsOf ?as1)" using dj j1 by simp
  have et: "\<And>r. end_touch w t s = andThen (endJob t s) (\<lambda>s1. Ok (settlePendingTap w s1))"
    using np by (simp add: end_touch_def isPendingFirstTouch_def split: option.splits)
  have settle: "\<And>u. pinch (settlePendingTap w u) = pinch u"
    by (simp add: settlePendingTap_def Let_def)
  have reassign: "\<And>b j. b \<in> set ?as1 \<Longrightarrow> j \<notin> set (jobsOf (remove1 b ?as1)) \<Longrightarrow>
      unassign (touch b) (job b) ?as1 = remove1 b ?as1 \<and>
      assign (touch b) j (remove1 b ?as1) = Some (remove1 b ?as1 @ [newAssignment (touch b) j])"
  proof -
    fix b j assume b: "b \<in> set ?as1" and j: "j \<notin> set (jobsOf (remove1 b ?as1))"
    have "ident (touch b) \<notin> set (touchesOf (remove1 b ?as1))"
      using touchesOf_remove1[OF dt1 b] dt1 by simp
    then show "unassign (touch b) (job b) ?as1 = remove1 b ?as1 \<and>
      assign (touch b) j (remove1 b ?as1) = Some (remove1 b ?as1 @ [newAssignment (touch b) j])"
      using j unassign_remove1[OF dt1 b]
      by (simp add: assign_def touchIsAssigned_iff jobIsAssigned_iff)
  qed
  have first_case: "job a = FIRST_PINCHER_JOB \<longrightarrow>
           (\<exists>s'. end_touch w t s = Ok s' \<and>
                 pinch s' = \<lparr>initialDistance = 0, currentDistance = 0, delta = 0\<rparr> \<and>
                 assignments s' =
                   (case findByJob SECOND_PINCHER_JOB (assignments s) of
                      None \<Rightarrow> remove1 a (assignments s)
                    | Some second \<Rightarrow>
                        remove1 second (remove1 a (assignments s)) @
                        [if jobIsAssigned MOVE_CAMERA_JOB (assignments s)
                         then (newAssignment (touch second) FIRST_PINCHER_JOB)
                                \<lparr>aClientX := aClientX second, aClientY := aClientY second\<rparr>
                         else (newAssignment (touch second) MOVE_CAMERA_JOB)
                                \<lparr>aClientX := aClientX second, aClientY := aClientY second,
                                 aDelta := Some (0, 0)\<rparr>]))"
  proof
    assume ja: "job a = FIRST_PINCHER_JOB"
    have f2: "findByJob SECOND_PINCHER_JOB ?as1 = findByJob SECOND_PINCHER_JOB ?as"
      using ja by (simp add: findByJob_remove1_other)
    have nofirst: "FIRST_PINCHER_JOB \<notin> set (jobsOf ?as1)" using j1 dj ja by simp
    show "\<exists>s'. end_touch w t s = Ok s' \<and>
                 pinch s' = \<lparr>initialDistance = 0, currentDistance = 0, delta = 0\<rparr> \<and>
                 assignments s' =
                   (case findByJob SECOND_PINCHER_JOB (assignments s) of
                      None \<Rightarrow> remove1 a (assignments s)
                    | Some second \<Rightarrow>
                        remove1 second (remove1 a (assignments s)) @
                        [if jobIsAssigned MOVE_CAMERA_JOB (assignments s)
                         then (newAssignment (touch second) FIRST_PINCHER_JOB)
                                \<lparr>aClientX := aClientX second, aClientY := aClientY second\<rparr>
                         else (newAssignment (touch second) MOVE_CAMERA_JOB)
                                \<lparr>aClientX := aClientX second, aClientY := aClientY second,
                                 aDelta := Some (0, 0)\<rparr>])"
    proof (cases "findByJob SECOND_PINCHER_JOB ?as")
      case None
      then show ?thesis
        using fa ja un1 f2
        by (simp add: et endJob_def endFirstPincher_def andThen_def Let_def settle zeroPinch_def)
    next
      case (Some second)
      then have sec: "second \<in> set ?as1" "job second = SECOND_PINCHER_JOB"
        using findByJob_SomeD[of SECOND_PINCHER_JOB ?as1 second] f2 by auto
      let ?as2 = "remove1 second ?as1"
      have j2: "jobsOf ?as2 = remove1 SECOND_PINCHER_JOB (jobsOf ?as1)"
        using jobsOf_remove1[OF dj1 sec(1)] sec(2) by simp
      have nf2: "FIRST_PINCHER_JOB \<notin> set (jobsOf ?as2)"
        using nofirst j2 by (metis notin_set_remove1)
      have cam: "MOVE_CAMERA_JOB \<in> set (jobsOf ?as2) \<longleftrightarrow> MOVE_CAMERA_JOB \<in> set (jobsOf ?as)"
        using j1 j2 ja by simp
      show ?thesis
      proof (cases "MOVE_CAMERA_JOB \<in> set (jobsOf ?as)")
        case True
        from reassign[OF sec(1) nf2] True cam show ?thesis
          using fa ja un1 f2 Some
          by (simp add: et endJob_def endFirstPincher_def andThen_def Let_def settle zeroPinch_def
                jobIsAssigned_iff)
      next
        case False
        then have "MOVE_CAMERA_JOB \<notin> set (jobsOf ?as2)" using cam by simp
        from reassign[OF sec(1) this] False cam show ?thesis
          using fa ja un1 f2 Some
          by (simp add: et endJob_def endFirstPincher_def andThen_def Let_def settle zeroPinch_def
                jobIsAssigned_iff)
      qed
    qed
  qed
  have second_case: "job a = SECOND_PINCHER_JOB \<longrightarrow>
           (\<exists>s'. end_touch w t s = Ok s' \<and>
                 pinch s' = \<lparr>initialDistance = 0, currentDistance = 0, delta = 0\<rparr> \<and>
                 assignments s' =
                   (case findByJob FIRST_PINCHER_JOB (assignments s) of
                      None \<Rightarrow> remove1 a (assignments s)
                    | Some first \<Rightarrow>
                        if jobIsAssigned MOVE_CAMERA_JOB (assignments s)
                        then remove1 a (assignments s)
                        else remove1 first (remove1 a (assignments s)) @
                             [(newAssignment (touch first) MOVE_CAMERA_JOB)
                                \<lparr>aClientX := aClientX first, aClientY := aClientY first,
                                 aDelta := Some (0, 0)\<rparr>]))"
  proof
    assume ja: "job a = SECOND_PINCHER_JOB"
    have f2: "findByJob FIRST_PINCHER_JOB ?as1 = findByJob FIRST_PINCHER_JOB ?as"
      using ja by (simp add: findByJob_remove1_other)
    have cam1: "MOVE_CAMERA_JOB \<in> set (jobsOf ?as1) \<longleftrightarrow> MOVE_CAMERA_JOB \<in> set (jobsOf ?as)"
      using j1 ja by simp
    show "\<exists>s'. end_touch w t s = Ok s' \<and>
                 pinch s' = \<lparr>initialDistance = 0, currentDistance = 0, delta = 0\<rparr> \<and>
                 assignments s' =
                   (case findByJob FIRST_PINCHER_JOB (assignments s) of
                      None \<Rightarrow> remove1 a (assignments s)
                    | Some first \<Rightarrow>
                        if jobIsAssigned MOVE_CAMERA_JOB (assignments s)
                        then remove1 a (assignments s)
                        else remove1 first (remove1 a (assignments s)) @
                             [(newAssignment (touch first) MOVE_CAMERA_JOB)
                                \<lparr>aClientX := aClientX first, aClientY := aClientY first,
                                 aDelta := Some (0, 0)\<rparr>])"
    proof (cases "findByJob FIRST_PINCHER_JOB ?as")
      case None
      then show ?thesis
        using fa ja un1 f2
        by (simp add: et endJob_def endSecondPincher_def andThen_def Let_def settle zeroPinch_def
              jobIsAssigned_def)
    next
      case (Some first)
      then have fst: "first \<in> set ?as1" "job first = FIRST_PINCHER_JOB"
        using findByJob_SomeD[of FIRST_PINCHER_JOB ?as1 first] f2 by auto
      let ?as2 = "remove1 first ?as1"
      have j2: "jobsOf ?as2 = remove1 FIRST_PINCHER_JOB (jobsOf ?as1)"
        using jobsOf_remove1[OF dj1 fst(1)] fst(2) by simp
      have has1: "jobIsAssigned FIRST_PINCHER_JOB ?as1"
        using Some f2 by (simp add: jobIsAssigned_def)
      show ?thesis
      proof (cases "MOVE_CAMERA_JOB \<in> set (jobsOf ?as)")
        case True
        then show ?thesis
          using fa ja un1 f2 Some cam1
          by (simp add: et endJob_def endSecondPincher_def andThen_def Let_def settle zeroPinch_def
                jobIsAssigned_iff)
      next
        case False
        then have "MOVE_CAMERA_JOB \<notin> set (jobsOf ?as2)"
          using cam1 j2 by (metis notin_set_remove1)
        from reassign[OF fst(1) this] False cam1 has1 show ?thesis
          using fa ja un1 f2 Some
          by (simp add: et endJob_def endSecondPincher_def andThen_def Let_def settle zeroPinch_def
                jobIsAssigned_iff)
      qed
    qed
  qed
  from first_case second_case show ?thesis by blast
qed

lemma pinching_assignments:
  "assignments pinching =
     [(newAssignment touchA FIRST_PINCHER_JOB)\<lparr>aClientX := Some 350, aClientY := Some 100\<rparr>,
      (newAssignment touchB SECOND_PINCHER_JOB)\<lparr>aClientX := Some 353, aClientY := Some 104\<rparr>]"
  by (simp add: pinching_def device_defs demo_defs)

lemma pinching_pinch:
  "pinch pinching = \<lparr>initialDistance = 5, currentDistance = 5, delta = 0\<rparr>"
  by (simp add: pinching_def device_defs demo_defs)

lemma pinching_rest:
  "pendingFirstTouch pinching = None" "events pinching = []" "timeouts pinching = []"
  "tapIndexToWriteNextFrame pinching = 0" "firstTouchTimeout pinching = False"
  "pendingTap pinching = \<lparr>maxTouchCount = 2, startedAt = Some 50\<rparr>"
  by (simp_all add: pinching_def device_defs demo_defs)

lemma pinchingWithCamera_assignments:
  "assignments pinchingWithCamera =
     [(newAssignment touchV MOVE_CAMERA_JOB)
        \<lparr>aClientX := Some 150, aClientY := Some 60, aDelta := Some (0, 0)\<rparr>,
      (newAssignment touchA FIRST_PINCHER_JOB)\<lparr>aClientX := Some 350, aClientY := Some 100\<rparr>,
      (newAssignment touchB SECOND_PINCHER_JOB)\<lparr>aClientX := Some 353, aClientY := Some 104\<rparr>]"
  by (simp add: pinchingWithCamera_def device_defs demo_defs)

lemma pinchingWithCamera_rest:
  "pendingFirstTouch pinchingWithCamera = None" "events pinchingWithCamera = []"
  by (simp_all add: pinchingWithCamera_def device_defs demo_defs)

theorem pincher_end_reassigns_witness:
  "(\<exists>s'. end_touch demoEnv touchA pinching = Ok s' \<and>
         pinch s' = \<lparr>initialDistance = 0, currentDistance = 0, delta = 0\<rparr> \<and>
         assignments s' =
           [(newAssignment touchB MOVE_CAMERA_JOB)
              \<lparr>aClientX := Some 353, aClientY := Some 104, aDelta := Some (0, 0)\<rparr>]) \<and>
   (\<exists>s'. end_touch demoEnv touchA pinchingWithCamera = Ok s' \<and>
         pinch s' = \<lparr>initialDistance = 0, currentDistance = 0, delta = 0\<rparr> \<and>
         assignments s' =
           [(newAssignment touchV MOVE_CAMERA_JOB)
              \<lparr>aClientX := Some 150, aClientY := Some 60, aDelta := Some (0, 0)\<rparr>,
            (newAssignment touchB FIRST_PINCHER_JOB)
              \<lparr>aClientX := Some 353, aClientY := Some 104\<rparr>]) \<and>
   (\<exists>s'. end_touch demoEnv touchB pinching = Ok s' \<and>
         pinch s' = \<lparr>initialDistance = 0, currentDistance = 0, delta = 0\<rparr> \<and>
         assignments s' =
           [(newAssignment touchA MOVE_CAMERA_JOB)
              \<lparr>aClientX := Some 350, aClientY := Some 100, aDelta := Some (0, 0)\<rparr>])"
proof -
  let ?A = "(newAssignment touchA FIRST_PINCHER_JOB)\<lparr>aClientX := Some 350, aClientY := Some 100\<rparr>"
  let ?B = "(newAssignment touchB SECOND_PINCHER_JOB)\<lparr>aClientX := Some 353, aClientY := Some 104\<rparr>"
  have d1: "distinct (touchesOf (assignments pinching))" "distinct (jobsOf (assignments pinching))"
    by (simp_all add: pinching_assignments demo_defs)
  have d2: "distinct (touchesOf (assignments pinchingWithCamera))"
    "distinct (jobsOf (assignments pinchingWithCamera))"
    by (simp_all add: pinchingWithCamera_assignments demo_defs)
  have n1: "\<not> isPendingFirstTouch touchA pinching" "\<not> isPendingFirstTouch touchB pinching"
    by (simp_all add: isPendingFirstTouch_def pinching_rest)
  have n2: "\<not> isPendingFirstTouch touchA pinchingWithCamera"
    by (simp add: isPendingFirstTouch_def pinchingWithCamera_rest)
  have fA1: "findByTouch touchA (assignments pinching) = Some ?A"
    by (simp add: pinching_assignments findByTouch_def demo_defs)
  have fB1: "findByTouch touchB (assignments pinching) = Some ?B"
    by (simp add: pinching_assignments findByTouch_def demo_defs)
  have fA2: "findByTouch touchA (assignments pinchingWithCamera) = Some ?A"
    by (simp add: pinchingWithCamera_assignments findByTouch_def demo_defs)
  have w1: "\<exists>s'. end_touch demoEnv touchA pinching = Ok s' \<and>
         pinch s' = \<lparr>initialDistance = 0, currentDistance = 0, delta = 0\<rparr> \<and>
         assignments s' =
           [(newAssignment touchB MOVE_CAMERA_JOB)
              \<lparr>aClientX := Some 353, aClientY := Some 104, aDelta := Some (0, 0)\<rparr>]"
    using pincher_end_reassigns[OF d1 n1(1) fA1, of demoEnv]
    by (simp add: pinching_assignments findByJob_def jobIsAssigned_def newAssignment_def demo_defs)
  have w2: "\<exists>s'. end_touch demoEnv touchA pinchingWithCamera = Ok s' \<and>
         pinch s' = \<lparr>initialDistance = 0, currentDistance = 0, delta = 0\<rparr> \<and>
         assignments s' =
           [(newAssignment touchV MOVE_CAMERA_JOB)
              \<lparr>aClientX := Some 150, aClientY := Some 60, aDelta := Some (0, 0)\<rparr>,
            (newAssignment touchB FIRST_PINCHER_JOB)
              \<lparr>aClientX := Some 353, aClientY := Some 104\<rparr>]"
    using pincher_end_reassigns[OF d2 n2 fA2, of demoEnv]
    by (simp add: pinchingWithCamera_assignments findByJob_def jobIsAssigned_def newAssignment_def
          demo_defs)
  have w3: "\<exists>s'. end_touch demoEnv touchB pinching = Ok s' \<and>
         pinch s' = \<lparr>initialDistance = 0, currentDistance = 0, delta = 0\<rparr> \<and>
         assignments s' =
           [(newAssignment touchA MOVE_CAMERA_JOB)
              \<lparr>aClientX := Some 350, aClientY := Some 100, aDelta := Some (0, 0)\<rparr>]"
    using pincher_end_reassigns[OF d1 n1(2) fB1, of demoEnv]
    by (simp add: pinching_assignments findByJob_def jobIsAssigned_def newAssignment_def demo_defs)
  from w1 w2 w3 show ?thesis by blast
qed

subsection \<open>The scheduled tap\<close>

lemma stateOf_andThen_cases:
  "stateOf (andThen r f) = (case r of Ok s \<Rightarrow> stateOf (f s) | Stop e s \<Rightarrow> s)"
  by (cases r) (simp_all add: andThen_def)

lemma takeFirstPincher_tapIndex:
  "takeFirstPincher s = Inl (e, s1) \<or> takeFirstPincher s = Inr (a, s1) \<Longrightarrow>
   tapIndexToWriteNextFrame s1 = tapIndexToWriteNextFrame s"
  by (auto simp: takeFirstPincher_def Let_def split: option.splits)

lemma assignSecondPincher_tapIndex:
  "tapIndexToWriteNextFrame (stateOf (assignSecondPincher t s)) = tapIndexToWriteNextFrame s"
proof (cases "takeFirstPincher s")
  case (Inl p)
  then show ?thesis using takeFirstPincher_tapIndex[of s "fst p" "snd p"]
    by (cases p) (simp add: assignSecondPincher_def)
next
  case (Inr p)
  then show ?thesis using takeFirstPincher_tapIndex[of s _ "snd p" "fst p"]
    by (cases p) (auto simp: assignSecondPincher_def Let_def split: option.splits)
qed

lemma resolveJob_tapIndex:
  "tapIndexToWriteNextFrame (stateOf (resolveJob w t allow s)) = tapIndexToWriteNextFrame s"
  by (auto simp: resolveJob_def Let_def logged_def assignSecondPincher_tapIndex
        split: option.splits)

lemma processTouchStart_tapIndex:
  "tapIndexToWriteNextFrame (stateOf (processTouchStart w t allow s)) = tapIndexToWriteNextFrame s"
  using resolveJob_tapIndex[of w t allow s]
  by (cases "resolveJob w t allow s")
     (auto simp: processTouchStart_def andThen_def logged_def updatePendingTap_def Let_def)

lemma start_tapIndex:
  "tapIndexToWriteNextFrame (stateOf (start w t s)) = tapIndexToWriteNextFrame s"
  by (auto simp: start_def Let_def processTouchStart_tapIndex clearPendingFirstTouch_def
        split: option.splits)

lemma movePincher_tapIndex:
  "tapIndexToWriteNextFrame (stateOf (movePincher t s)) = tapIndexToWriteNextFrame s"
  by (auto simp: movePincher_def Let_def split: option.splits)

lemma moveJob_tapIndex:
  "tapIndexToWriteNextFrame (stateOf (moveJob w t s)) = tapIndexToWriteNextFrame s"
  by (auto simp: moveJob_def logged_def movePincher_tapIndex split: option.splits job.splits)

lemma move_tapIndex:
  "tapIndexToWriteNextFrame (stateOf (move w t s)) = tapIndexToWriteNextFrame s"
proof (cases "isPendingFirstTouch t s")
  case False
  then show ?thesis
    by (auto simp: move_def isPendingFirstTouch_def moveJob_tapIndex split: option.splits)
next
  case True
  then obtain p where p: "pendingFirstTouch s = Some p" "ident p = ident t"
    by (auto simp: isPendingFirstTouch_def split: option.splits)
  show ?thesis using p processTouchStart_tapIndex[of w p False s]
    by (cases "processTouchStart w p False s")
       (simp_all add: move_def andThen_def clearPendingFirstTouch_def)
qed

lemma forEach_tapIndex:
  assumes "\<And>t s. tapIndexToWriteNextFrame (stateOf (f t s)) = tapIndexToWriteNextFrame s"
  shows "tapIndexToWriteNextFrame (stateOf (forEach f ts s)) = tapIndexToWriteNextFrame s"
proof (induction ts arbitrary: s)
  case Nil then show ?case by simp
next
  case (Cons t ts)
  show ?case using assms[of t s] Cons.IH
    by (cases "f t s") (simp_all add: andThen_def)
qed

lemma process_tapIndex:
  "etype ev = touchstart \<or> etype ev = touchmove \<Longrightarrow>
   tapIndexToWriteNextFrame (stateOf (process w ev s)) = tapIndexToWriteNextFrame s"
  by (auto simp: process_def forEach_tapIndex start_tapIndex move_tapIndex)

lemma drain_tapIndex:
  "\<forall>ev\<in>set evs. etype ev = touchstart \<or> etype ev = touchmove \<Longrightarrow>
   tapIndexToWriteNextFrame (stateOf (drain w evs s)) = tapIndexToWriteNextFrame s"
proof (induction evs arbitrary: s)
  case Nil then show ?case by simp
next
  case (Cons ev evs)
  then have "tapIndexToWriteNextFrame (stateOf (process w ev s)) = tapIndexToWriteNextFrame s"
    by (simp add: process_tapIndex)
  then show ?case using Cons
    by (cases "process w ev s") (simp_all add: andThen_def)
qed

lemma resetDeltas_tapIndex:
  "tapIndexToWriteNextFrame (stateOf (resetDeltas s)) = tapIndexToWriteNextFrame s"
  "events (stateOf (resetDeltas s)) = events s"
  by (auto simp: resetDeltas_def Let_def split: option.splits)

lemma publish_tap:
  "frame_tap (fst (publish w s)) =
     (if tapIndexToWriteNextFrame s \<noteq> 0 \<and> tapPath w (tapIndexToWriteNextFrame s)
      then Some (tapIndexToWriteNextFrame s) else None)"
  "tapIndexToWriteNextFrame (snd (publish w s)) = 0"
  by (simp_all add: publish_def Let_def)

lemma write_frame_tap:
  assumes "\<forall>ev\<in>set (events s). etype ev = touchstart \<or> etype ev = touchmove"
    and "write_frame w s = Written f s'"
  shows "frame_tap f =
           (if tapIndexToWriteNextFrame s \<noteq> 0 \<and> tapPath w (tapIndexToWriteNextFrame s)
            then Some (tapIndexToWriteNextFrame s) else None) \<and>
         tapIndexToWriteNextFrame s' = 0"
proof -
  obtain s1 where s1: "resetDeltas s = Ok s1"
    using assms(2) by (cases "resetDeltas s") (simp_all add: write_frame_def andThen_def)
  then have e1: "events s1 = events s" "tapIndexToWriteNextFrame s1 = tapIndexToWriteNextFrame s"
    using resetDeltas_tapIndex[of s] by simp_all
  obtain s2 where s2: "drain w (events s) s1 = Ok s2"
    using assms(2) s1 e1 by (cases "drain w (events s) s1") (simp_all add: write_frame_def andThen_def)
  then have t2: "tapIndexToWriteNextFrame s2 = tapIndexToWriteNextFrame s"
    using drain_tapIndex[OF assms(1), of w s1] e1 by simp
  have "publish w (s2\<lparr>events := []\<rparr>) = (f, s')"
    using assms(2) s1 s2 e1 by (simp add: write_frame_def andThen_def split: prod.splits)
  then show ?thesis
    using publish_tap[of w "s2\<lparr>events := []\<rparr>"] t2 by simp
qed

lemma touching_fields:
  "assignments touching =
     [(newAssignment touchU MOVE_CURSOR_JOB)
        \<lparr>cursorPose := Some (projectTouch demoEnv touchU), isFirstFrame := Some False\<rparr>]"
  "pendingTap touching = \<lparr>maxTouchCount = 1, startedAt = Some 50\<rparr>"
  "pendingFirstTouch touching = None" "events touching = []"
  "tapIndexToWriteNextFrame touching = 0"
  by (simp_all add: touching_def device_defs demo_defs)

subsection \<open>The pinch state along a frame\<close>

lemma pinchKept_refl [simp]: "pinchKept p p"
  by (simp add: pinchKept_def)

lemma pinchStep_refl [simp]: "pinchStep p p"
  by (simp add: pinchStep_def)

lemma pinchKept_trans: "pinchKept p q \<Longrightarrow> pinchKept q r \<Longrightarrow> pinchKept p r"
  by (simp add: pinchKept_def)

lemma pinchStep_trans: "pinchStep p q \<Longrightarrow> pinchStep q r \<Longrightarrow> pinchStep p r"
  by (auto simp: pinchStep_def pinchKept_def)

lemma pinchStep_reset [simp]:
  "pinchStep p \<lparr>initialDistance = d, currentDistance = d, delta = 0\<rparr>"
  by (simp add: pinchStep_def)

lemma pinchStep_zero [simp]: "pinchStep p zeroPinch"
  by (simp add: pinchStep_def zeroPinch_def)

lemma takeFirstPincher_pinch:
  "takeFirstPincher s = Inl (e, s1) \<or> takeFirstPincher s = Inr (a, s1) \<Longrightarrow> pinch s1 = pinch s"
  by (auto simp: takeFirstPincher_def Let_def split: option.splits)

lemma assignSecondPincher_pinch:
  "pinchStep (pinch s) (pinch (stateOf (assignSecondPincher t s)))"
proof (cases "takeFirstPincher s")
  case (Inl p)
  then show ?thesis using takeFirstPincher_pinch[of s "fst p" "snd p"]
    by (cases p) (simp add: assignSecondPincher_def)
next
  case (Inr p)
  then show ?thesis using takeFirstPincher_pinch[of s _ "snd p" "fst p"]
    by (cases p) (auto simp: assignSecondPincher_def Let_def split: option.splits)
qed

lemma resolveJob_pinch: "pinchStep (pinch s) (pinch (stateOf (resolveJob w t allow s)))"
  by (auto simp: resolveJob_def Let_def logged_def assignSecondPincher_pinch split: option.splits)

lemma processTouchStart_pinch:
  "pinchStep (pinch s) (pinch (stateOf (processTouchStart w t allow s)))"
  using resolveJob_pinch[of s w t allow]
  by (cases "resolveJob w t allow s")
     (auto simp: processTouchStart_def andThen_def logged_def updatePendingTap_def Let_def)

lemma start_pinch: "pinchStep (pinch s) (pinch (stateOf (start w t s)))"
proof (cases "pendingFirstTouch s")
  case None
  then show ?thesis by (simp add: start_def Let_def processTouchStart_pinch)
next
  case (Some p)
  show ?thesis
  proof (cases "assign p FIRST_PINCHER_JOB (assignments s)")
    case None
    then show ?thesis using Some by (simp add: start_def)
  next
    case (Some as1)
    let ?s1 = "clearPendingFirstTouch
                 (s\<lparr>assignments := modify_last (\<lambda>a. a\<lparr>aClientX := Some (clientX p),
                                             aClientY := Some (clientY p)\<rparr>) as1\<rparr>)"
    have "pinch ?s1 = pinch s" by (simp add: clearPendingFirstTouch_def)
    then show ?thesis
      using processTouchStart_pinch[of ?s1 w t False] Some \<open>pendingFirstTouch s = Some p\<close>
      by (simp add: start_def)
  qed
qed

lemma endJob_pinch: "pinchStep (pinch s) (pinch (stateOf (endJob t s)))"
  by (auto simp: endJob_def endFirstPincher_def endSecondPincher_def logged_def Let_def
        split: option.splits job.splits)

lemma settlePendingTap_pinch [simp]: "pinch (settlePendingTap w s) = pinch s"
  by (simp add: settlePendingTap_def Let_def)

lemma end_touch_pinch: "pinchStep (pinch s) (pinch (stateOf (end_touch w t s)))"
proof (cases "isPendingFirstTouch t s")
  case False
  then have "end_touch w t s = andThen (endJob t s) (\<lambda>s1. Ok (settlePendingTap w s1))"
    by (simp add: end_touch_def isPendingFirstTouch_def split: option.splits)
  then show ?thesis using endJob_pinch[of s t]
    by (cases "endJob t s") (simp_all add: andThen_def)
next
  case True
  then obtain p where p: "pendingFirstTouch s = Some p" "ident p = ident t"
    by (auto simp: isPendingFirstTouch_def split: option.splits)
  show ?thesis using p processTouchStart_pinch[of s w p True]
    by (cases "processTouchStart w p True s")
       (simp_all add: end_touch_def andThen_def clearPendingFirstTouch_def)
qed

lemma movePincher_pinch: "pinchKept (pinch s) (pinch (stateOf (movePincher t s)))"
  by (auto simp: movePincher_def Let_def pinchKept_def split: option.splits)

lemma moveJob_pinch: "pinchKept (pinch s) (pinch (stateOf (moveJob w t s)))"
  by (auto simp: moveJob_def logged_def movePincher_pinch split: option.splits job.splits)

lemma movePincher_pending:
  "pendingFirstTouch (stateOf (movePincher t s)) = pendingFirstTouch s"
  by (auto simp: movePincher_def Let_def split: option.splits)

lemma moveJob_pending: "pendingFirstTouch (stateOf (moveJob w t s)) = pendingFirstTouch s"
  by (auto simp: moveJob_def logged_def movePincher_pending split: option.splits job.splits)

lemma move_pinch: "pinchStep (pinch s) (pinch (stateOf (move w t s)))"
proof (cases "isPendingFirstTouch t s")
  case False
  then have "move w t s = moveJob w t s"
    by (simp add: move_def isPendingFirstTouch_def split: option.splits)
  then show ?thesis using moveJob_pinch[of s w t] by (simp add: pinchStep_def)
next
  case True
  then obtain p where p: "pendingFirstTouch s = Some p" "ident p = ident t"
    by (auto simp: isPendingFirstTouch_def split: option.splits)
  show ?thesis using p processTouchStart_pinch[of s w p False]
    by (cases "processTouchStart w p False s")
       (simp_all add: move_def andThen_def clearPendingFirstTouch_def)
qed

lemma forEach_pinch:
  assumes "\<And>t s. pinchStep (pinch s) (pinch (stateOf (f t s)))"
  shows "pinchStep (pinch s) (pinch (stateOf (forEach f ts s)))"
proof (induction ts arbitrary: s)
  case Nil then show ?case by simp
next
  case (Cons t ts)
  show ?case
  proof (cases "f t s")
    case (Ok s1)
    then show ?thesis using assms[of s t] Cons.IH[of s1]
      by (simp add: andThen_def) (metis pinchStep_trans)
  next
    case (Stop e s1)
    then show ?thesis using assms[of s t] by (simp add: andThen_def)
  qed
qed

lemma process_pinch: "pinchStep (pinch s) (pinch (stateOf (process w ev s)))"
  by (cases "etype ev")
     (simp_all add: process_def forEach_pinch start_pinch move_pinch end_touch_pinch)

lemma drain_pinch: "pinchStep (pinch s) (pinch (stateOf (drain w evs s)))"
proof (induction evs arbitrary: s)
  case Nil then show ?case by simp
next
  case (Cons ev evs)
  show ?case
  proof (cases "process w ev s")
    case (Ok s1)
    then show ?thesis using process_pinch[of s w ev] Cons.IH[of s1]
      by (simp add: andThen_def) (metis pinchStep_trans)
  next
    case (Stop e s1)
    then show ?thesis using process_pinch[of s w ev] by (simp add: andThen_def)
  qed
qed

lemma forEach_move_kept:
  "pendingFirstTouch s = None \<Longrightarrow>
   pinchKept (pinch s) (pinch (stateOf (forEach (move w) ts s))) \<and>
   pendingFirstTouch (stateOf (forEach (move w) ts s)) = None"
proof (induction ts arbitrary: s)
  case Nil then show ?case by simp
next
  case (Cons t ts)
  have m: "move w t s = moveJob w t s" using Cons.prems by (simp add: move_def)
  show ?case
  proof (cases "moveJob w t s")
    case (Ok s1)
    then have "pendingFirstTouch s1 = None" "pinchKept (pinch s) (pinch s1)"
      using moveJob_pending[of w t s] moveJob_pinch[of s w t] Cons.prems by simp_all
    then show ?thesis using Cons.IH[of s1] m Ok
      by (simp add: andThen_def) (metis pinchKept_trans)
  next
    case (Stop e s1)
    then show ?thesis
      using moveJob_pending[of w t s] moveJob_pinch[of s w t] Cons.prems m
      by (simp add: andThen_def)
  qed
qed

lemma drain_moves_kept:
  "pendingFirstTouch s = None \<Longrightarrow> \<forall>ev\<in>set evs. etype ev = touchmove \<Longrightarrow>
   pinchKept (pinch s) (pinch (stateOf (drain w evs s))) \<and>
   pendingFirstTouch (stateOf (drain w evs s)) = None"
proof (induction evs arbitrary: s)
  case Nil then show ?case by simp
next
  case (Cons ev evs)
  have p: "process w ev s = forEach (move w) (touches ev) s"
    using Cons.prems(2) by (simp add: process_def)
  note k = forEach_move_kept[OF Cons.prems(1), of w "touches ev"]
  show ?case
  proof (cases "process w ev s")
    case (Ok s1)
    then have "pendingFirstTouch s1 = None" "pinchKept (pinch s) (pinch s1)"
      using k p by simp_all
    then show ?thesis using Cons.IH[of s1] Cons.prems(2) Ok
      by (simp add: andThen_def) (metis pinchKept_trans)
  next
    case (Stop e s1)
    then show ?thesis using k p by (simp add: andThen_def)
  qed
qed


lemma resetDeltas_pinch:
  "resetDeltas s = Ok s1 \<Longrightarrow>
   pinch s1 = (pinch s)\<lparr>delta := 0\<rparr> \<and> events s1 = events s \<and>
   pendingFirstTouch s1 = pendingFirstTouch s"
  by (auto simp: resetDeltas_def Let_def split: option.splits)

lemma write_frame_parts:
  assumes "write_frame w s = Written f s'"
  obtains s1 s2 where "resetDeltas s = Ok s1" "drain w (events s) s1 = Ok s2"
    "publish w (s2\<lparr>events := []\<rparr>) = (f, s')"
proof -
  obtain s1 where s1: "resetDeltas s = Ok s1"
    using assms by (cases "resetDeltas s") (simp_all add: write_frame_def andThen_def)
  then have e1: "events s1 = events s" using resetDeltas_pinch by blast
  obtain s2 where s2: "drain w (events s) s1 = Ok s2"
    using assms s1 e1 by (cases "drain w (events s) s1") (simp_all add: write_frame_def andThen_def)
  have "publish w (s2\<lparr>events := []\<rparr>) = (f, s')"
    using assms s1 s2 e1 by (simp add: write_frame_def andThen_def split: prod.splits)
  with s1 s2 that show thesis by blast
qed


section \<open>Scenarios of the specification\<close>

text \<open>
  A single touch lands on empty world space: it is buffered, and when the timer fires
  with no second touch it is given CameraMove.
\<close>

lemma scenario_world_touch_moves_camera:
  "pendingFirstTouch
     (run [Listener (eventOf touchstart [touchA]), WriteFrame demoEnv] initial) = Some touchA \<and>
   assignments
     (run [Listener (eventOf touchstart [touchA]), WriteFrame demoEnv] initial) = [] \<and>
   assignments
     (run [Listener (eventOf touchstart [touchA]), WriteFrame demoEnv, FirstTouchTimer demoEnv]
        initial) =
     [(newAssignment touchA MOVE_CAMERA_JOB)
        \<lparr>aClientX := Some 350, aClientY := Some 100, aDelta := Some (0, 0)\<rparr>] \<and>
   pendingFirstTouch
     (run [Listener (eventOf touchstart [touchA]), WriteFrame demoEnv, FirstTouchTimer demoEnv]
        initial) = None"
  by (simp add: device_defs demo_defs)

text \<open>
  Touch A lands and is buffered, touch B lands: A is the first pincher, B the second,
  and the initial distance of the pinch is the distance between the two touches.
\<close>

lemma scenario_two_touches_pinch:
  "assignments pinching =
     [(newAssignment touchA FIRST_PINCHER_JOB)\<lparr>aClientX := Some 350, aClientY := Some 100\<rparr>,
      (newAssignment touchB SECOND_PINCHER_JOB)\<lparr>aClientX := Some 353, aClientY := Some 104\<rparr>] \<and>
   pinch pinching = \<lparr>initialDistance = 5, currentDistance = 5, delta = 0\<rparr>"
  by (simp add: pinching_assignments pinching_pinch)

text \<open>
  Four touches land on the world in one event. The fourth finds touch C buffered and a
  first pincher assigned: \<open>start\<close> throws, the frame write is aborted before it clears
  the queue, and nothing is published.
\<close>

lemma scenario_four_touches_abort_the_write:
  "write_frame demoEnv
     (initial\<lparr>events := [eventOf touchstart [touchA, touchB, touchC, touchD]]\<rparr>) =
   Aborted (TypeError ''job'')
     (pinching\<lparr>pendingFirstTouch := Some touchC, firstTouchTimeout := True,
               events := [eventOf touchstart [touchA, touchB, touchC, touchD]]\<rparr>)"
  by (simp add: pinching_def device_defs demo_defs)

subsection \<open>The cursor assignment while its touch stays down\<close>

lemma cursorFrame_append: "cursorFrame t b as \<Longrightarrow> cursorFrame t b (as @ xs)"
  by (auto simp: cursorFrame_def findByJob_def find_append_if split: option.splits)

lemma cursorFrame_modify_first:
  assumes "\<And>x. job (f x) = job x" "\<And>x. touch (f x) = touch x"
    "\<And>x. isFirstFrame (f x) = isFirstFrame x"
  shows "cursorFrame t b (modify_first P f as) = cursorFrame t b as"
  by (induction as) (auto simp: cursorFrame_def findByJob_def assms)

lemma cursorFrame_unassign:
  "cursorFrame t b as \<Longrightarrow> ident t' \<noteq> ident t \<or> j \<noteq> MOVE_CURSOR_JOB \<Longrightarrow>
   cursorFrame t b (unassign t' j as)"
  by (induction as) (auto simp: cursorFrame_def findByJob_def split: if_splits)

lemma cursorFrame_assign:
  "cursorFrame t b as \<Longrightarrow> assign t' j as = Some as1 \<Longrightarrow> cursorFrame t b (modify_last f as1)"
  by (auto simp: assign_def cursorFrame_append split: if_splits)

lemma takeFirstPincher_cursorFrame:
  assumes "cursorFrame t b (assignments s)"
    and "takeFirstPincher s = Inl (e, s1) \<or> takeFirstPincher s = Inr (a, s1)"
  shows "cursorFrame t b (assignments s1)"
proof (cases "findByJob FIRST_PINCHER_JOB (assignments s)")
  case (Some first)
  then show ?thesis using assms by (simp add: takeFirstPincher_def)
next
  case None
  show ?thesis
  proof (cases "findByJob MOVE_CAMERA_JOB (assignments s)")
    case None
    then show ?thesis using assms \<open>findByJob FIRST_PINCHER_JOB (assignments s) = None\<close>
      by (simp add: takeFirstPincher_def)
  next
    case (Some cm)
    then have j: "job cm = MOVE_CAMERA_JOB" using findByJob_SomeD by blast
    let ?as1 = "unassign (touch cm) (job cm) (assignments s)"
    have c1: "cursorFrame t b ?as1"
      using cursorFrame_unassign[OF assms(1), of "touch cm" "job cm"] j by simp
    show ?thesis
    proof (cases "assign (touch cm) FIRST_PINCHER_JOB ?as1")
      case None
      then show ?thesis
        using assms(2) \<open>findByJob MOVE_CAMERA_JOB (assignments s) = Some cm\<close>
          \<open>findByJob FIRST_PINCHER_JOB (assignments s) = None\<close> c1
        by (auto simp: takeFirstPincher_def Let_def)
    next
      case (Some as2)
      then show ?thesis
        using assms(2) \<open>findByJob MOVE_CAMERA_JOB (assignments s) = Some cm\<close>
          \<open>findByJob FIRST_PINCHER_JOB (assignments s) = None\<close> cursorFrame_assign[OF c1 Some]
        by (auto simp: takeFirstPincher_def Let_def)
    qed
  qed
qed

lemma assignSecondPincher_cursorFrame:
  assumes "cursorFrame t b (assignments s)"
  shows "cursorFrame t b (assignments (stateOf (assignSecondPincher t' s)))"
proof (cases "takeFirstPincher s")
  case (Inl p)
  then show ?thesis using takeFirstPincher_cursorFrame[OF assms, of "fst p" "snd p"]
    by (cases p) (simp add: assignSecondPincher_def)
next
  case (Inr p)
  obtain a s1 where p: "p = (a, s1)" by (cases p)
  have c1: "cursorFrame t b (assignments s1)"
    using takeFirstPincher_cursorFrame[OF assms, of _ s1 a] Inr p by simp
  show ?thesis
  proof (cases "assign t' SECOND_PINCHER_JOB (assignments s1)")
    case None
    then show ?thesis using Inr p c1 by (simp add: assignSecondPincher_def)
  next
    case (Some as3)
    then show ?thesis using Inr p cursorFrame_assign[OF c1 Some]
      by (auto simp: assignSecondPincher_def Let_def split: option.splits)
  qed
qed

lemma resolveJob_cursorFrame:
  assumes "cursorFrame t b (assignments s)"
  shows "cursorFrame t b (assignments (stateOf (resolveJob w t' allow s)))"
  using assms assignSecondPincher_cursorFrame[OF assms, of t']
  by (auto simp: resolveJob_def Let_def logged_def cursorFrame_assign split: option.splits)

lemma processTouchStart_cursorFrame:
  assumes "cursorFrame t b (assignments s)"
  shows "cursorFrame t b (assignments (stateOf (processTouchStart w t' allow s)))"
  using assms resolveJob_cursorFrame[OF assms, of w t' allow]
  by (cases "resolveJob w t' allow s")
     (auto simp: processTouchStart_def andThen_def logged_def)

lemma start_cursorFrame:
  assumes "cursorFrame t b (assignments s)"
  shows "cursorFrame t b (assignments (stateOf (start w t' s)))"
proof (cases "pendingFirstTouch s")
  case None
  then show ?thesis using assms processTouchStart_cursorFrame[OF assms, of w t' False]
    by (simp add: start_def Let_def)
next
  case (Some p)
  show ?thesis
  proof (cases "assign p FIRST_PINCHER_JOB (assignments s)")
    case None
    then show ?thesis using Some assms by (simp add: start_def)
  next
    case (Some as1)
    let ?s1 = "clearPendingFirstTouch
                 (s\<lparr>assignments := modify_last (\<lambda>a. a\<lparr>aClientX := Some (clientX p),
                                             aClientY := Some (clientY p)\<rparr>) as1\<rparr>)"
    have "cursorFrame t b (assignments ?s1)"
      using cursorFrame_assign[OF assms Some] by (simp add: clearPendingFirstTouch_def)
    from processTouchStart_cursorFrame[OF this, of w t' False]
    show ?thesis using Some \<open>pendingFirstTouch s = Some p\<close> by (simp add: start_def)
  qed
qed

lemma movePincher_cursorFrame:
  "cursorFrame t b (assignments s) \<Longrightarrow>
   cursorFrame t b (assignments (stateOf (movePincher t' s)))"
  by (auto simp: movePincher_def Let_def cursorFrame_modify_first split: option.splits)

lemma moveJob_cursorFrame:
  "cursorFrame t b (assignments s) \<Longrightarrow>
   cursorFrame t b (assignments (stateOf (moveJob w t' s)))"
  by (auto simp: moveJob_def logged_def cursorFrame_modify_first movePincher_cursorFrame
        split: option.splits job.splits)

lemma move_cursorFrame:
  assumes "cursorFrame t b (assignments s)"
  shows "cursorFrame t b (assignments (stateOf (move w t' s)))"
proof (cases "isPendingFirstTouch t' s")
  case False
  then have "move w t' s = moveJob w t' s"
    by (simp add: move_def isPendingFirstTouch_def split: option.splits)
  then show ?thesis using moveJob_cursorFrame[OF assms] by simp
next
  case True
  then obtain p where p: "pendingFirstTouch s = Some p" "ident p = ident t'"
    by (auto simp: isPendingFirstTouch_def split: option.splits)
  show ?thesis using p processTouchStart_cursorFrame[OF assms, of w p False]
    by (cases "processTouchStart w p False s")
       (simp_all add: move_def andThen_def clearPendingFirstTouch_def)
qed

lemma endJob_cursorFrame:
  assumes c: "cursorFrame t b (assignments s)" and ne: "ident t' \<noteq> ident t"
  shows "cursorFrame t b (assignments (stateOf (endJob t' s)))"
proof (cases "findByTouch t' (assignments s)")
  case None
  then show ?thesis using c by (simp add: endJob_def logged_def)
next
  case (Some a)
  then have ia: "ident (touch a) \<noteq> ident t" using findByTouch_SomeD[OF Some] ne by simp
  let ?as1 = "unassign (touch a) (job a) (assignments s)"
  have c1: "cursorFrame t b ?as1" using cursorFrame_unassign[OF c] ia by blast
  show ?thesis
  proof (cases "job a")
    case MOVE_CURSOR_JOB
    then show ?thesis using Some c1 by (simp add: endJob_def)
  next
    case MOVE_CAMERA_JOB
    then show ?thesis using Some c1 by (simp add: endJob_def)
  next
    case FIRST_PINCHER_JOB
    show ?thesis
    proof (cases "findByJob SECOND_PINCHER_JOB ?as1")
      case None
      then show ?thesis using Some FIRST_PINCHER_JOB c1
        by (simp add: endJob_def endFirstPincher_def Let_def)
    next
      case (Some second)
      then have "job second = SECOND_PINCHER_JOB" using findByJob_SomeD by blast
      then have c2: "cursorFrame t b (unassign (touch second) (job second) ?as1)"
        using cursorFrame_unassign[OF c1, of "touch second" "job second"] by simp
      show ?thesis
        using \<open>findByTouch t' (assignments s) = Some a\<close> FIRST_PINCHER_JOB Some c2
          cursorFrame_assign[OF c2]
        by (auto simp: endJob_def endFirstPincher_def Let_def split: option.splits)
    qed
  next
    case SECOND_PINCHER_JOB
    show ?thesis
    proof (cases "findByJob FIRST_PINCHER_JOB ?as1")
      case None
      then show ?thesis using Some SECOND_PINCHER_JOB c1
        by (auto simp: endJob_def endSecondPincher_def Let_def jobIsAssigned_def)
    next
      case (Some first)
      then have "job first = FIRST_PINCHER_JOB" using findByJob_SomeD by blast
      then have c2: "cursorFrame t b (unassign (touch first) (job first) ?as1)"
        using cursorFrame_unassign[OF c1, of "touch first" "job first"] by simp
      show ?thesis
        using \<open>findByTouch t' (assignments s) = Some a\<close> SECOND_PINCHER_JOB Some c1 c2
          cursorFrame_assign[OF c2]
        by (auto simp: endJob_def endSecondPincher_def Let_def split: option.splits)
    qed
  qed
qed

lemma end_touch_cursorFrame:
  assumes c: "cursorFrame t b (assignments s)" and ne: "ident t' \<noteq> ident t"
  shows "cursorFrame t b (assignments (stateOf (end_touch w t' s)))"
proof (cases "isPendingFirstTouch t' s")
  case False
  then have "end_touch w t' s = andThen (endJob t' s) (\<lambda>s1. Ok (settlePendingTap w s1))"
    by (simp add: end_touch_def isPendingFirstTouch_def split: option.splits)
  then show ?thesis using endJob_cursorFrame[OF c ne]
    by (cases "endJob t' s") (simp_all add: andThen_def)
next
  case True
  then obtain p where p: "pendingFirstTouch s = Some p" "ident p = ident t'"
    by (auto simp: isPendingFirstTouch_def split: option.splits)
  show ?thesis using p processTouchStart_cursorFrame[OF c, of w p True]
    by (cases "processTouchStart w p True s")
       (simp_all add: end_touch_def andThen_def clearPendingFirstTouch_def)
qed

lemma forEach_cursorFrame:
  assumes "\<And>t' s. t' \<in> set ts \<Longrightarrow> cursorFrame t b (assignments s) \<Longrightarrow>
             cursorFrame t b (assignments (stateOf (f t' s)))"
  shows "cursorFrame t b (assignments s) \<Longrightarrow>
         cursorFrame t b (assignments (stateOf (forEach f ts s)))"
  using assms
proof (induction ts arbitrary: s)
  case Nil then show ?case by simp
next
  case (Cons t' ts)
  have h: "cursorFrame t b (assignments (stateOf (f t' s)))"
    using Cons.prems(2)[of t' s] Cons.prems(1) by simp
  show ?case
  proof (cases "f t' s")
    case (Ok s1)
    then show ?thesis using h Cons.IH[of s1] Cons.prems(2) by (simp add: andThen_def)
  next
    case (Stop e s1)
    then show ?thesis using h by (simp add: andThen_def)
  qed
qed

lemma process_cursorFrame:
  assumes c: "cursorFrame t b (assignments s)"
    and nl: "etype ev = touchend \<or> etype ev = touchcancel \<longrightarrow>
             (\<forall>t'\<in>set (changedTouches ev). ident t' \<noteq> ident t)"
  shows "cursorFrame t b (assignments (stateOf (process w ev s)))"
proof (cases "etype ev")
  case touchstart
  then show ?thesis using forEach_cursorFrame[of "changedTouches ev" t b "start w" s] c
    by (simp add: process_def start_cursorFrame)
next
  case touchmove
  then show ?thesis using forEach_cursorFrame[of "touches ev" t b "move w" s] c
    by (simp add: process_def move_cursorFrame)
next
  case touchend
  then show ?thesis
    using forEach_cursorFrame[of "changedTouches ev" t b "end_touch w" s] c nl
    by (simp add: process_def end_touch_cursorFrame)
next
  case touchcancel
  then show ?thesis
    using forEach_cursorFrame[of "changedTouches ev" t b "end_touch w" s] c nl
    by (simp add: process_def end_touch_cursorFrame)
qed

lemma drain_cursorFrame:
  assumes nl: "\<forall>ev\<in>set evs. etype ev = touchend \<or> etype ev = touchcancel \<longrightarrow>
                 (\<forall>t'\<in>set (changedTouches ev). ident t' \<noteq> ident t)"
  shows "cursorFrame t b (assignments s) \<Longrightarrow>
         cursorFrame t b (assignments (stateOf (drain w evs s)))"
  using nl
proof (induction evs arbitrary: s)
  case Nil then show ?case by simp
next
  case (Cons ev evs)
  have h: "cursorFrame t b (assignments (stateOf (process w ev s)))"
    using process_cursorFrame[OF Cons.prems(1), of ev w] Cons.prems(2) by simp
  show ?case
  proof (cases "process w ev s")
    case (Ok s1)
    then show ?thesis using h Cons.IH[of s1] Cons.prems(2) by (simp add: andThen_def)
  next
    case (Stop e s1)
    then show ?thesis using h by (simp add: andThen_def)
  qed
qed

lemma write_frame_cursorFrame:
  assumes c: "cursorFrame t b (assignments s)"
    and nl: "\<forall>ev\<in>set (events s). etype ev = touchend \<or> etype ev = touchcancel \<longrightarrow>
                 (\<forall>t'\<in>set (changedTouches ev). ident t' \<noteq> ident t)"
    and wr: "write_frame w s = Written f s'"
  shows "frame_isTouchingGrabbable f = Some (\<not> b) \<and> cursorFrame t False (assignments s')"
proof -
  obtain s1 where s1: "resetDeltas s = Ok s1"
    using wr by (cases "resetDeltas s") (simp_all add: write_frame_def andThen_def)
  then have e1: "events s1 = events s" and c1: "cursorFrame t b (assignments s1)"
    using c by (auto simp: resetDeltas_def Let_def cursorFrame_modify_first split: option.splits)
  obtain s2 where s2: "drain w (events s) s1 = Ok s2"
    using wr s1 e1 by (cases "drain w (events s) s1") (simp_all add: write_frame_def andThen_def)
  then have c2: "cursorFrame t b (assignments s2)"
    using drain_cursorFrame[OF nl c1, of w] by simp
  have p: "publish w (s2\<lparr>events := []\<rparr>) = (f, s')"
    using wr s1 s2 e1 by (simp add: write_frame_def andThen_def split: prod.splits)
  obtain a where a: "findByJob MOVE_CURSOR_JOB (assignments s2) = Some a"
    "ident (touch a) = ident t" "isFirstFrame a = Some b"
    using c2 by (auto simp: cursorFrame_def split: option.splits)
  have g: "frame_isTouchingGrabbable f = Some (\<not> b)"
    using p a by (auto simp: publish_def Let_def)
  have as': "assignments s' = modify_first (\<lambda>a. job a = MOVE_CURSOR_JOB)
                (\<lambda>a. a\<lparr>isFirstFrame := Some False\<rparr>) (assignments s2)"
    using p by (auto simp: publish_def Let_def)
  have "\<And>as. (case find (\<lambda>a. job a = MOVE_CURSOR_JOB) as of None \<Rightarrow> False
               | Some a \<Rightarrow> ident (touch a) = ident t) \<Longrightarrow>
        cursorFrame t False (modify_first (\<lambda>a. job a = MOVE_CURSOR_JOB)
                (\<lambda>a. a\<lparr>isFirstFrame := Some False\<rparr>) as)"
  proof -
    fix as show "(case find (\<lambda>a. job a = MOVE_CURSOR_JOB) as of None \<Rightarrow> False
               | Some a \<Rightarrow> ident (touch a) = ident t) \<Longrightarrow>
        cursorFrame t False (modify_first (\<lambda>a. job a = MOVE_CURSOR_JOB)
                (\<lambda>a. a\<lparr>isFirstFrame := Some False\<rparr>) as)"
      by (induction as) (auto simp: cursorFrame_def findByJob_def)
  qed
  from this[of "assignments s2"] a have "cursorFrame t False (assignments s')"
    by (simp add: as' findByJob_def)
  with g show ?thesis by simp
qed

text \<open>
  C9, amended. A single first touch (empty table, nothing buffered) whose hit test
  reports an interactable surface resolves to CursorMove with \<open>isFirstFrame = true\<close>:
  at once if the surface is part of the UI; otherwise the touch is buffered and resolves
  when the 150 ms timer fires, if the hit test reports an interactable then too. As long
  as the touch does not lift, whatever events the frame writes drain, the first frame
  write after the resolution publishes \<open>isTouchingGrabbable = false\<close> and the second
  publishes \<open>true\<close>; with empty queues both writes return.
\<close>

theorem interactable_first_touch_becomes_cursor:
  assumes "assignments s = []" and "pendingFirstTouch s = None"
    and "getTouchIntersection w t = Some el" and "matches_interactable el"
    and "\<not> matches_ui el \<Longrightarrow> isCursorOverInteractable w' t"
  shows "\<exists>s1.
           (if matches_ui el then start w t s = Ok s1
            else start w t s = Ok (s\<lparr>pendingFirstTouch := Some t, firstTouchTimeout := True\<rparr>) \<and>
                 firstTouchTimeoutFires w'
                   (s\<lparr>pendingFirstTouch := Some t, firstTouchTimeout := True\<rparr>) = Ok s1) \<and>
           assignments s1 =
             [(newAssignment t MOVE_CURSOR_JOB)
                \<lparr>cursorPose := Some (projectTouch (if matches_ui el then w else w') t),
                 isFirstFrame := Some True\<rparr>] \<and>
           (\<forall>w1 w2 q1 q2 f1 s2 f2 s3.
              (\<forall>ev\<in>set q1. etype ev = touchend \<or> etype ev = touchcancel \<longrightarrow>
                 (\<forall>t'\<in>set (changedTouches ev). ident t' \<noteq> ident t)) \<longrightarrow>
              (\<forall>ev\<in>set q2. etype ev = touchend \<or> etype ev = touchcancel \<longrightarrow>
                 (\<forall>t'\<in>set (changedTouches ev). ident t' \<noteq> ident t)) \<longrightarrow>
              write_frame w1 (s1\<lparr>events := q1\<rparr>) = Written f1 s2 \<longrightarrow>
              write_frame w2 (s2\<lparr>events := q2\<rparr>) = Written f2 s3 \<longrightarrow>
              frame_isTouchingGrabbable f1 = Some False \<and>
              frame_isTouchingGrabbable f2 = Some True) \<and>
           (\<forall>w1 w2. \<exists>f1 s2 f2 s3.
              write_frame w1 (s1\<lparr>events := []\<rparr>) = Written f1 s2 \<and>
              frame_isTouchingGrabbable f1 = Some False \<and>
              write_frame w2 s2 = Written f2 s3 \<and>
              frame_isTouchingGrabbable f2 = Some True)"
proof -
  let ?a = "\<lambda>v. (newAssignment t MOVE_CURSOR_JOB)
                \<lparr>cursorPose := Some (projectTouch v t), isFirstFrame := Some True\<rparr>"
  have over: "isCursorOverInteractable w t"
    using assms(3,4) by (simp add: isCursorOverInteractable_def)
  have pts: "\<And>v u. isCursorOverInteractable v t \<Longrightarrow> assignments u = [] \<Longrightarrow>
               processTouchStart v t False u = Ok (updatePendingTap v (u\<lparr>assignments := [?a v]\<rparr>))"
    by (simp add: processTouchStart_def resolveJob_def andThen_def assign_def
          touchIsAssigned_def jobIsAssigned_def findByJob_def findByTouch_def)
  have empty_frames: "\<And>v u w1 w2. assignments u = [?a v] \<Longrightarrow>
      \<exists>f1 s2 f2 s3. write_frame w1 (u\<lparr>events := []\<rparr>) = Written f1 s2 \<and>
           frame_isTouchingGrabbable f1 = Some False \<and>
           write_frame w2 s2 = Written f2 s3 \<and>
           frame_isTouchingGrabbable f2 = Some True"
    by (simp add: write_frame_def resetDeltas_def publish_def andThen_def findByJob_def
          Let_def)
  have any_frames: "\<And>v u w1 w2 q1 q2 f1 s2 f2 s3. assignments u = [?a v] \<Longrightarrow>
      \<forall>ev\<in>set q1. etype ev = touchend \<or> etype ev = touchcancel \<longrightarrow>
         (\<forall>t'\<in>set (changedTouches ev). ident t' \<noteq> ident t) \<Longrightarrow>
      \<forall>ev\<in>set q2. etype ev = touchend \<or> etype ev = touchcancel \<longrightarrow>
         (\<forall>t'\<in>set (changedTouches ev). ident t' \<noteq> ident t) \<Longrightarrow>
      write_frame w1 (u\<lparr>events := q1\<rparr>) = Written f1 s2 \<Longrightarrow>
      write_frame w2 (s2\<lparr>events := q2\<rparr>) = Written f2 s3 \<Longrightarrow>
      frame_isTouchingGrabbable f1 = Some False \<and> frame_isTouchingGrabbable f2 = Some True"
  proof -
    fix v u w1 w2 q1 q2 f1 s2 f2 s3
    assume u: "assignments u = [?a v]"
      and n1: "\<forall>ev\<in>set q1. etype ev = touchend \<or> etype ev = touchcancel \<longrightarrow>
         (\<forall>t'\<in>set (changedTouches ev). ident t' \<noteq> ident t)"
      and n2: "\<forall>ev\<in>set q2. etype ev = touchend \<or> etype ev = touchcancel \<longrightarrow>
         (\<forall>t'\<in>set (changedTouches ev). ident t' \<noteq> ident t)"
      and wr1: "write_frame w1 (u\<lparr>events := q1\<rparr>) = Written f1 s2"
      and wr2: "write_frame w2 (s2\<lparr>events := q2\<rparr>) = Written f2 s3"
    have c0: "cursorFrame t True (assignments (u\<lparr>events := q1\<rparr>))"
      using u by (simp add: cursorFrame_def findByJob_def)
    have "\<forall>ev\<in>set (events (u\<lparr>events := q1\<rparr>)). etype ev = touchend \<or> etype ev = touchcancel \<longrightarrow>
         (\<forall>t'\<in>set (changedTouches ev). ident t' \<noteq> ident t)" using n1 by simp
    from write_frame_cursorFrame[OF c0 this wr1]
    have r1: "frame_isTouchingGrabbable f1 = Some False" "cursorFrame t False (assignments s2)"
      by simp_all
    have c1: "cursorFrame t False (assignments (s2\<lparr>events := q2\<rparr>))" using r1(2) by simp
    have "\<forall>ev\<in>set (events (s2\<lparr>events := q2\<rparr>)). etype ev = touchend \<or> etype ev = touchcancel \<longrightarrow>
         (\<forall>t'\<in>set (changedTouches ev). ident t' \<noteq> ident t)" using n2 by simp
    from write_frame_cursorFrame[OF c1 this wr2] r1(1)
    show "frame_isTouchingGrabbable f1 = Some False \<and> frame_isTouchingGrabbable f2 = Some True"
      by simp
  qed
  show ?thesis
  proof (cases "matches_ui el")
    case True
    let ?s1 = "updatePendingTap w (s\<lparr>assignments := [?a w]\<rparr>)"
    have st: "start w t s = Ok ?s1"
      using True assms(1,2,3) over pts[of w s]
      by (simp add: start_def shouldDelayStartTouch_def)
    have as1: "assignments ?s1 = [?a w]" by (simp add: updatePendingTap_def Let_def)
    show ?thesis
      using st True as1 empty_frames[OF as1] any_frames[OF as1]
      by (intro exI[of _ ?s1]) (simp only: if_True, blast)
  next
    case False
    let ?b = "s\<lparr>pendingFirstTouch := Some t, firstTouchTimeout := True\<rparr>"
    let ?s1 = "(updatePendingTap w' (?b\<lparr>firstTouchTimeout := False, assignments := [?a w']\<rparr>))
                 \<lparr>pendingFirstTouch := None\<rparr>"
    have st: "start w t s = Ok ?b"
      using False assms(2,3) by (simp add: start_def shouldDelayStartTouch_def)
    have fire: "firstTouchTimeoutFires w' ?b = Ok ?s1"
      using pts[OF assms(5)[OF False], of "?b\<lparr>firstTouchTimeout := False\<rparr>"] assms(1)
      by (simp add: firstTouchTimeoutFires_def andThen_def)
    have as1: "assignments ?s1 = [?a w']" by (simp add: updatePendingTap_def Let_def)
    show ?thesis
      using st fire False as1 empty_frames[OF as1] any_frames[OF as1]
      by (intro exI[of _ ?s1]) (simp only: if_False, blast)
  qed
qed

theorem interactable_first_touch_becomes_cursor_witness:
  "assignments initial = [] \<and> pendingFirstTouch initial = None \<and>
   getTouchIntersection demoEnv touchU =
     Some \<lparr>matches_ui = True, matches_interactable = True\<rparr> \<and>
   (\<exists>s1 f1 s2 f2 s3.
      start demoEnv touchU initial = Ok s1 \<and>
      assignments s1 =
        [(newAssignment touchU MOVE_CURSOR_JOB)
           \<lparr>cursorPose := Some (projectTouch demoEnv touchU), isFirstFrame := Some True\<rparr>] \<and>
      write_frame demoEnv (s1\<lparr>events := [eventOf touchmove [touchAt 5 60 55]]\<rparr>) =
        Written f1 s2 \<and>
      write_frame demoEnv
        (s2\<lparr>events := [eventOf touchmove [touchAt 5 70 58], eventOf touchstart [touchV],
                       eventOf touchend [touchV]]\<rparr>) = Written f2 s3 \<and>
      frame_isTouchingGrabbable f1 = Some False \<and>
      frame_isTouchingGrabbable f2 = Some True) \<and>
   getTouchIntersection demoEnv touchI =
     Some \<lparr>matches_ui = False, matches_interactable = True\<rparr> \<and>
   isCursorOverInteractable demoEnv touchI \<and>
   (\<exists>s1 f1 s2 f2 s3.
      start demoEnv touchI initial =
        Ok (initial\<lparr>pendingFirstTouch := Some touchI, firstTouchTimeout := True\<rparr>) \<and>
      firstTouchTimeoutFires demoEnv
        (initial\<lparr>pendingFirstTouch := Some touchI, firstTouchTimeout := True\<rparr>) = Ok s1 \<and>
      assignments s1 =
        [(newAssignment touchI MOVE_CURSOR_JOB)
           \<lparr>cursorPose := Some (projectTouch demoEnv touchI), isFirstFrame := Some True\<rparr>] \<and>
      write_frame demoEnv (s1\<lparr>events := [eventOf touchmove [touchAt 7 260 80]]\<rparr>) =
        Written f1 s2 \<and>
      write_frame demoEnv (s2\<lparr>events := []\<rparr>) = Written f2 s3 \<and>
      frame_isTouchingGrabbable f1 = Some False \<and>
      frame_isTouchingGrabbable f2 = Some True)"
proof -
  let ?qU1 = "[eventOf touchmove [touchAt 5 60 55]]"
  let ?qU2 = "[eventOf touchmove [touchAt 5 70 58], eventOf touchstart [touchV],
               eventOf touchend [touchV]]"
  let ?qI1 = "[eventOf touchmove [touchAt 7 260 80]]"
  let ?b = "initial\<lparr>pendingFirstTouch := Some touchI, firstTouchTimeout := True\<rparr>"
  have i: "assignments initial = []" "pendingFirstTouch initial = None"
    by (simp_all add: initial_def)
  have hU: "getTouchIntersection demoEnv touchU =
              Some \<lparr>matches_ui = True, matches_interactable = True\<rparr>"
    by (simp add: demo_defs)
  have hI: "getTouchIntersection demoEnv touchI =
              Some \<lparr>matches_ui = False, matches_interactable = True\<rparr>"
    by (simp add: demo_defs)
  have oI: "isCursorOverInteractable demoEnv touchI"
    by (simp add: isCursorOverInteractable_def demo_defs)
  have nU: "\<forall>ev\<in>set ?qU1. etype ev = touchend \<or> etype ev = touchcancel \<longrightarrow>
              (\<forall>t'\<in>set (changedTouches ev). ident t' \<noteq> ident touchU)"
    "\<forall>ev\<in>set ?qU2. etype ev = touchend \<or> etype ev = touchcancel \<longrightarrow>
              (\<forall>t'\<in>set (changedTouches ev). ident t' \<noteq> ident touchU)"
    by (simp_all add: demo_defs)
  have nI: "\<forall>ev\<in>set ?qI1. etype ev = touchend \<or> etype ev = touchcancel \<longrightarrow>
              (\<forall>t'\<in>set (changedTouches ev). ident t' \<noteq> ident touchI)"
    "\<forall>ev\<in>set ([]::event list). etype ev = touchend \<or> etype ev = touchcancel \<longrightarrow>
              (\<forall>t'\<in>set (changedTouches ev). ident t' \<noteq> ident touchI)"
    by (simp_all add: demo_defs)
  have eU: "\<exists>f1 s2 f2 s3.
      write_frame demoEnv ((stateOf (start demoEnv touchU initial))\<lparr>events := ?qU1\<rparr>) =
        Written f1 s2 \<and>
      write_frame demoEnv (s2\<lparr>events := ?qU2\<rparr>) = Written f2 s3"
    by (simp add: device_defs demo_defs)
  have eI: "\<exists>f1 s2 f2 s3.
      write_frame demoEnv ((stateOf (firstTouchTimeoutFires demoEnv ?b))\<lparr>events := ?qI1\<rparr>) =
        Written f1 s2 \<and>
      write_frame demoEnv (s2\<lparr>events := []\<rparr>) = Written f2 s3"
    by (simp add: device_defs demo_defs)
  have instU: "\<exists>s1. start demoEnv touchU initial = Ok s1 \<and>
       assignments s1 =
        [(newAssignment touchU MOVE_CURSOR_JOB)
           \<lparr>cursorPose := Some (projectTouch demoEnv touchU), isFirstFrame := Some True\<rparr>] \<and>
       (\<forall>w1 w2 q1 q2 f1 s2 f2 s3.
              (\<forall>ev\<in>set q1. etype ev = touchend \<or> etype ev = touchcancel \<longrightarrow>
                 (\<forall>t'\<in>set (changedTouches ev). ident t' \<noteq> ident touchU)) \<longrightarrow>
              (\<forall>ev\<in>set q2. etype ev = touchend \<or> etype ev = touchcancel \<longrightarrow>
                 (\<forall>t'\<in>set (changedTouches ev). ident t' \<noteq> ident touchU)) \<longrightarrow>
              write_frame w1 (s1\<lparr>events := q1\<rparr>) = Written f1 s2 \<longrightarrow>
              write_frame w2 (s2\<lparr>events := q2\<rparr>) = Written f2 s3 \<longrightarrow>
              frame_isTouchingGrabbable f1 = Some False \<and>
              frame_isTouchingGrabbable f2 = Some True)"
    using interactable_first_touch_becomes_cursor[OF i hU, of demoEnv]
    by simp (elim exE conjE, intro exI conjI, assumption+)
  then obtain s1 where
    u: "start demoEnv touchU initial = Ok s1"
       "assignments s1 =
        [(newAssignment touchU MOVE_CURSOR_JOB)
           \<lparr>cursorPose := Some (projectTouch demoEnv touchU), isFirstFrame := Some True\<rparr>]"
    and u3: "(\<forall>w1 w2 q1 q2 f1 s2 f2 s3.
              (\<forall>ev\<in>set q1. etype ev = touchend \<or> etype ev = touchcancel \<longrightarrow>
                 (\<forall>t'\<in>set (changedTouches ev). ident t' \<noteq> ident touchU)) \<longrightarrow>
              (\<forall>ev\<in>set q2. etype ev = touchend \<or> etype ev = touchcancel \<longrightarrow>
                 (\<forall>t'\<in>set (changedTouches ev). ident t' \<noteq> ident touchU)) \<longrightarrow>
              write_frame w1 (s1\<lparr>events := q1\<rparr>) = Written f1 s2 \<longrightarrow>
              write_frame w2 (s2\<lparr>events := q2\<rparr>) = Written f2 s3 \<longrightarrow>
              frame_isTouchingGrabbable f1 = Some False \<and>
              frame_isTouchingGrabbable f2 = Some True)"
    by blast
  from eU u(1) obtain f1 s2 f2 s3 where
    wU: "write_frame demoEnv (s1\<lparr>events := ?qU1\<rparr>) = Written f1 s2"
        "write_frame demoEnv (s2\<lparr>events := ?qU2\<rparr>) = Written f2 s3"
    by auto
  have "frame_isTouchingGrabbable f1 = Some False \<and> frame_isTouchingGrabbable f2 = Some True"
    using u3 nU wU by blast
  with u(1,2) wU
  have wU': "\<exists>s1 f1 s2 f2 s3.
      start demoEnv touchU initial = Ok s1 \<and>
      assignments s1 =
        [(newAssignment touchU MOVE_CURSOR_JOB)
           \<lparr>cursorPose := Some (projectTouch demoEnv touchU), isFirstFrame := Some True\<rparr>] \<and>
      write_frame demoEnv (s1\<lparr>events := ?qU1\<rparr>) = Written f1 s2 \<and>
      write_frame demoEnv (s2\<lparr>events := ?qU2\<rparr>) = Written f2 s3 \<and>
      frame_isTouchingGrabbable f1 = Some False \<and>
      frame_isTouchingGrabbable f2 = Some True"
    by blast
  have instI: "\<exists>t1. start demoEnv touchI initial = Ok ?b \<and>
       firstTouchTimeoutFires demoEnv ?b = Ok t1 \<and>
       assignments t1 =
        [(newAssignment touchI MOVE_CURSOR_JOB)
           \<lparr>cursorPose := Some (projectTouch demoEnv touchI), isFirstFrame := Some True\<rparr>] \<and>
       (\<forall>w1 w2 q1 q2 f1 s2 f2 s3.
              (\<forall>ev\<in>set q1. etype ev = touchend \<or> etype ev = touchcancel \<longrightarrow>
                 (\<forall>t'\<in>set (changedTouches ev). ident t' \<noteq> ident touchI)) \<longrightarrow>
              (\<forall>ev\<in>set q2. etype ev = touchend \<or> etype ev = touchcancel \<longrightarrow>
                 (\<forall>t'\<in>set (changedTouches ev). ident t' \<noteq> ident touchI)) \<longrightarrow>
              write_frame w1 (t1\<lparr>events := q1\<rparr>) = Written f1 s2 \<longrightarrow>
              write_frame w2 (s2\<lparr>events := q2\<rparr>) = Written f2 s3 \<longrightarrow>
              frame_isTouchingGrabbable f1 = Some False \<and>
              frame_isTouchingGrabbable f2 = Some True)"
    using interactable_first_touch_becomes_cursor[OF i hI, of demoEnv] oI
    by simp (elim exE conjE, intro exI conjI, assumption+)
  then obtain t1 where
    v: "start demoEnv touchI initial = Ok ?b"
       "firstTouchTimeoutFires demoEnv ?b = Ok t1"
       "assignments t1 =
        [(newAssignment touchI MOVE_CURSOR_JOB)
           \<lparr>cursorPose := Some (projectTouch demoEnv touchI), isFirstFrame := Some True\<rparr>]"
    and v4: "(\<forall>w1 w2 q1 q2 f1 s2 f2 s3.
              (\<forall>ev\<in>set q1. etype ev = touchend \<or> etype ev = touchcancel \<longrightarrow>
                 (\<forall>t'\<in>set (changedTouches ev). ident t' \<noteq> ident touchI)) \<longrightarrow>
              (\<forall>ev\<in>set q2. etype ev = touchend \<or> etype ev = touchcancel \<longrightarrow>
                 (\<forall>t'\<in>set (changedTouches ev). ident t' \<noteq> ident touchI)) \<longrightarrow>
              write_frame w1 (t1\<lparr>events := q1\<rparr>) = Written f1 s2 \<longrightarrow>
              write_frame w2 (s2\<lparr>events := q2\<rparr>) = Written f2 s3 \<longrightarrow>
              frame_isTouchingGrabbable f1 = Some False \<and>
              frame_isTouchingGrabbable f2 = Some True)"
    by blast
  from eI v(2) obtain g1 t2 g2 t3 where
    wI: "write_frame demoEnv (t1\<lparr>events := ?qI1\<rparr>) = Written g1 t2"
        "write_frame demoEnv (t2\<lparr>events := []\<rparr>) = Written g2 t3"
    by auto
  have "frame_isTouchingGrabbable g1 = Some False \<and> frame_isTouchingGrabbable g2 = Some True"
    using v4 nI wI by blast
  with v(1,2,3) wI
  have wI': "\<exists>s1 f1 s2 f2 s3.
      start demoEnv touchI initial = Ok ?b \<and>
      firstTouchTimeoutFires demoEnv ?b = Ok s1 \<and>
      assignments s1 =
        [(newAssignment touchI MOVE_CURSOR_JOB)
           \<lparr>cursorPose := Some (projectTouch demoEnv touchI), isFirstFrame := Some True\<rparr>] \<and>
      write_frame demoEnv (s1\<lparr>events := ?qI1\<rparr>) = Written f1 s2 \<and>
      write_frame demoEnv (s2\<lparr>events := []\<rparr>) = Written f2 s3 \<and>
      frame_isTouchingGrabbable f1 = Some False \<and>
      frame_isTouchingGrabbable f2 = Some True"
    by blast
  from i hU hI oI wU' wI' show ?thesis by blast
qed

subsection \<open>What a lift does to the scheduled tap\<close>

lemma endJob_keeps_tap:
  "tapIndexToWriteNextFrame (stateOf (endJob t s)) = tapIndexToWriteNextFrame s \<and>
   pendingTap (stateOf (endJob t s)) = pendingTap s"
  by (auto simp: endJob_def endFirstPincher_def endSecondPincher_def logged_def Let_def
        split: option.splits job.splits)

lemma end_touch_tap:
  assumes "\<not> isPendingFirstTouch t s" and "end_touch w t s = Ok s'"
  shows "tapIndexToWriteNextFrame s' =
           (if assignments s' = [] \<and> 0 < maxTouchCount (pendingTap s) \<and>
               (\<exists>t0. startedAt (pendingTap s) = Some t0 \<and> now w - t0 \<le> 125)
            then maxTouchCount (pendingTap s) else tapIndexToWriteNextFrame s) \<and>
         pendingTap s' =
           (if assignments s' = [] then \<lparr>maxTouchCount = 0, startedAt = None\<rparr>
            else pendingTap s)"
proof -
  have e: "end_touch w t s = andThen (endJob t s) (\<lambda>s1. Ok (settlePendingTap w s1))"
    using assms(1) by (simp add: end_touch_def isPendingFirstTouch_def split: option.splits)
  then obtain s0 where s0: "endJob t s = Ok s0" "s' = settlePendingTap w s0"
    using assms(2) by (cases "endJob t s") (simp_all add: andThen_def)
  have k: "tapIndexToWriteNextFrame s0 = tapIndexToWriteNextFrame s" "pendingTap s0 = pendingTap s"
    using endJob_keeps_tap[of t s] s0(1) by simp_all
  show ?thesis
    unfolding s0(2) using k
    by (cases "startedAt (pendingTap s)") (auto simp: settlePendingTap_def Let_def)
qed

lemma end_touch_buffered_tap:
  assumes "isPendingFirstTouch t s"
  shows "tapIndexToWriteNextFrame (stateOf (end_touch w t s)) = tapIndexToWriteNextFrame s"
proof -
  obtain p where p: "pendingFirstTouch s = Some p" "ident p = ident t"
    using assms by (auto simp: isPendingFirstTouch_def split: option.splits)
  show ?thesis using p processTouchStart_tapIndex[of w p True s]
    by (cases "processTouchStart w p True s")
       (simp_all add: end_touch_def andThen_def clearPendingFirstTouch_def)
qed

lemma end_touch_tap_positive:
  assumes "0 < tapIndexToWriteNextFrame s"
  shows "0 < tapIndexToWriteNextFrame (stateOf (end_touch w t s))"
proof (cases "isPendingFirstTouch t s")
  case True
  then show ?thesis using end_touch_buffered_tap assms by simp
next
  case False
  then have e: "end_touch w t s = andThen (endJob t s) (\<lambda>s1. Ok (settlePendingTap w s1))"
    by (simp add: end_touch_def isPendingFirstTouch_def split: option.splits)
  show ?thesis
  proof (cases "endJob t s")
    case (Ok s0)
    then have "0 < tapIndexToWriteNextFrame s0" using endJob_keeps_tap[of t s] assms by simp
    then show ?thesis using e Ok by (auto simp: andThen_def settlePendingTap_def Let_def)
  next
    case (Stop er s0)
    then show ?thesis using e endJob_keeps_tap[of t s] assms by (simp add: andThen_def)
  qed
qed

lemma forEach_tap_positive:
  assumes "\<And>t s. 0 < tapIndexToWriteNextFrame s \<Longrightarrow> 0 < tapIndexToWriteNextFrame (stateOf (f t s))"
  shows "0 < tapIndexToWriteNextFrame s \<Longrightarrow>
         0 < tapIndexToWriteNextFrame (stateOf (forEach f ts s))"
proof (induction ts arbitrary: s)
  case Nil then show ?case by simp
next
  case (Cons t ts)
  show ?case using assms[OF Cons.prems, of t] Cons.IH
    by (cases "f t s") (simp_all add: andThen_def)
qed

lemma process_tap_positive:
  "0 < tapIndexToWriteNextFrame s \<Longrightarrow> 0 < tapIndexToWriteNextFrame (stateOf (process w ev s))"
  by (cases "etype ev")
     (simp_all add: process_def forEach_tap_positive start_tapIndex move_tapIndex
        end_touch_tap_positive)

lemma drain_tap_positive:
  "0 < tapIndexToWriteNextFrame s \<Longrightarrow> 0 < tapIndexToWriteNextFrame (stateOf (drain w evs s))"
proof (induction evs arbitrary: s)
  case Nil then show ?case by simp
next
  case (Cons ev evs)
  show ?case using process_tap_positive[OF Cons.prems, of w ev] Cons.IH
    by (cases "process w ev s") (simp_all add: andThen_def)
qed

lemma drain_tap_kept_or_lift:
  assumes "drain w evs s = Ok s'"
  shows "tapIndexToWriteNextFrame s' = tapIndexToWriteNextFrame s \<or>
         (\<exists>ev\<in>set evs. etype ev = touchend \<or> etype ev = touchcancel)"
proof (cases "\<exists>ev\<in>set evs. etype ev = touchend \<or> etype ev = touchcancel")
  case True then show ?thesis by simp
next
  case False
  then have "\<forall>ev\<in>set evs. etype ev = touchstart \<or> etype ev = touchmove"
    by (metis event_type.exhaust)
  from drain_tapIndex[OF this, of w s] assms show ?thesis by simp
qed

text \<open>
  C7, as stated (the next frame write publishes the tap flag of every qualifying lift),
  fails: the scheduled tap is one number, and a later qualifying lift drained by the same
  frame write overwrites it. Touch U lands and lifts (a tap of one finger is scheduled),
  then touches U and V land and lift (a tap of two fingers is scheduled), all in the queue
  of one frame write: the write publishes \<^verbatim>\<open>tap2\<close> only, and the next write publishes no
  tap.
\<close>

theorem one_finger_tap_overwritten:
  "pendingTap (stateOf (drain demoEnv [eventOf touchstart [touchU]] initial)) =
     \<lparr>maxTouchCount = 1, startedAt = Some 50\<rparr> \<and>
   now demoEnv - 50 \<le> 125 \<and>
   assignments (stateOf (drain demoEnv
     [eventOf touchstart [touchU], eventOf touchend [touchU]] initial)) = [] \<and>
   tapIndexToWriteNextFrame (stateOf (drain demoEnv
     [eventOf touchstart [touchU], eventOf touchend [touchU]] initial)) = 1 \<and>
   map_option frame_tap (frameOf (write_frame demoEnv
     (initial\<lparr>events := [eventOf touchstart [touchU], eventOf touchend [touchU],
                          eventOf touchstart [touchU, touchV],
                          eventOf touchend [touchU, touchV]]\<rparr>))) = Some (Some 2) \<and>
   map_option frame_tap (frameOf (write_frame demoEnv (stateAfter (write_frame demoEnv
     (initial\<lparr>events := [eventOf touchstart [touchU], eventOf touchend [touchU],
                          eventOf touchstart [touchU, touchV],
                          eventOf touchend [touchU, touchV]]\<rparr>))))) = Some None"
  by (simp add: device_defs demo_defs)

text \<open>
  C7, amended. A touch lifts (not the buffered one), its assignment is the only one in
  the table, the pending tap has a maximum touch count \<open>N > 0\<close> and started at most
  125 ms before. Then \<open>end\<close> empties the table, schedules the tap of \<open>N\<close> fingers and
  resets the pending tap. The frame write that drains this lift (and the next frame
  write, when the lift ran from a zero-delay callback) publishes one tap flag and resets
  the scheduled tap: the flag \<^verbatim>\<open>tapN\<close> if it drains no touch-end or touch-cancel after the
  lift; otherwise the flag of the count that is scheduled when the queue is drained,
  which is positive. The flag is stored if the table of paths has it. Every lift of a touch
  that is not buffered sets the scheduled tap by the same rule: to the maximum touch
  count, if the lift empties the table, the count is positive and the pending tap
  started at most 125 ms before; otherwise the scheduled tap stays as it is; a lift of the
  buffered touch leaves it too. A frame write that starts with no tap scheduled and
  drains no touch-end or touch-cancel stores no tap and leaves none scheduled.
\<close>

theorem tap_published_once:
  assumes tab: "assignments s = [a]" "ident (touch a) = ident t"
    and np: "\<not> isPendingFirstTouch t s"
    and n: "maxTouchCount (pendingTap s) = N" "0 < N"
    and tm: "startedAt (pendingTap s) = Some t0" "now w - t0 \<le> 125"
  shows "\<exists>s1. end_touch w t s = Ok s1 \<and> assignments s1 = [] \<and>
           tapIndexToWriteNextFrame s1 = N \<and>
           pendingTap s1 = \<lparr>maxTouchCount = 0, startedAt = None\<rparr> \<and>
           (\<forall>rest s2.
              drain w rest s1 = Ok s2 \<longrightarrow>
              0 < tapIndexToWriteNextFrame s2 \<and>
              (tapIndexToWriteNextFrame s2 = N \<or>
               (\<exists>ev\<in>set rest. etype ev = touchend \<or> etype ev = touchcancel)) \<and>
              frame_tap (fst (publish w (s2\<lparr>events := []\<rparr>))) =
                (if tapPath w (tapIndexToWriteNextFrame s2)
                 then Some (tapIndexToWriteNextFrame s2) else None) \<and>
              tapIndexToWriteNextFrame (snd (publish w (s2\<lparr>events := []\<rparr>))) = 0) \<and>
           (\<forall>w1 q f u.
              write_frame w1 (s1\<lparr>events := q\<rparr>) = Written f u \<longrightarrow>
              (\<exists>k. 0 < k \<and>
                   (k = N \<or> (\<exists>ev\<in>set q. etype ev = touchend \<or> etype ev = touchcancel)) \<and>
                   frame_tap f = (if tapPath w1 k then Some k else None)) \<and>
              tapIndexToWriteNextFrame u = 0) \<and>
           (\<forall>w' t' u u'.
              end_touch w' t' u = Ok u' \<longrightarrow>
              (if isPendingFirstTouch t' u
               then tapIndexToWriteNextFrame u' = tapIndexToWriteNextFrame u
               else tapIndexToWriteNextFrame u' =
                      (if assignments u' = [] \<and> 0 < maxTouchCount (pendingTap u) \<and>
                          (\<exists>t1. startedAt (pendingTap u) = Some t1 \<and> now w' - t1 \<le> 125)
                       then maxTouchCount (pendingTap u) else tapIndexToWriteNextFrame u) \<and>
                    pendingTap u' =
                      (if assignments u' = [] then \<lparr>maxTouchCount = 0, startedAt = None\<rparr>
                       else pendingTap u))) \<and>
           (\<forall>w2 u f' u'.
              tapIndexToWriteNextFrame u = 0 \<longrightarrow>
              (\<forall>ev\<in>set (events u). etype ev = touchstart \<or> etype ev = touchmove) \<longrightarrow>
              write_frame w2 u = Written f' u' \<longrightarrow>
              frame_tap f' = None \<and> tapIndexToWriteNextFrame u' = 0)"
proof -
  have fa: "findByTouch t (assignments s) = Some a"
    using tab by (simp add: findByTouch_def)
  have un: "unassign (touch a) (job a) [a] = []" by simp
  obtain s0 where s0: "endJob t s = Ok s0" "assignments s0 = []"
    "pendingTap s0 = pendingTap s"
    using fa tab(1) un
    by (cases "job a")
       (simp_all add: endJob_def endFirstPincher_def endSecondPincher_def Let_def
          findByJob_def jobIsAssigned_def)
  let ?s1 = "settlePendingTap w s0"
  have e: "end_touch w t s = Ok ?s1"
    using np s0(1)
    by (simp add: end_touch_def andThen_def isPendingFirstTouch_def split: option.splits)
  have i1: "tapIndexToWriteNextFrame ?s1 = N"
    and p1: "pendingTap ?s1 = \<lparr>maxTouchCount = 0, startedAt = None\<rparr>"
    using s0(2,3) n tm by (simp_all add: settlePendingTap_def Let_def)
  have a1: "assignments ?s1 = []" using s0(2) by simp
  have part2: "\<forall>rest s2.
              drain w rest ?s1 = Ok s2 \<longrightarrow>
              0 < tapIndexToWriteNextFrame s2 \<and>
              (tapIndexToWriteNextFrame s2 = N \<or>
               (\<exists>ev\<in>set rest. etype ev = touchend \<or> etype ev = touchcancel)) \<and>
              frame_tap (fst (publish w (s2\<lparr>events := []\<rparr>))) =
                (if tapPath w (tapIndexToWriteNextFrame s2)
                 then Some (tapIndexToWriteNextFrame s2) else None) \<and>
              tapIndexToWriteNextFrame (snd (publish w (s2\<lparr>events := []\<rparr>))) = 0"
  proof (intro allI impI)
    fix rest s2
    assume d: "drain w rest ?s1 = Ok s2"
    have pos: "0 < tapIndexToWriteNextFrame s2"
      using drain_tap_positive[of ?s1 w rest] d i1 n(2) by simp
    have kept: "tapIndexToWriteNextFrame s2 = N \<or>
               (\<exists>ev\<in>set rest. etype ev = touchend \<or> etype ev = touchcancel)"
      using drain_tap_kept_or_lift[OF d] i1 by simp
    show "0 < tapIndexToWriteNextFrame s2 \<and>
              (tapIndexToWriteNextFrame s2 = N \<or>
               (\<exists>ev\<in>set rest. etype ev = touchend \<or> etype ev = touchcancel)) \<and>
              frame_tap (fst (publish w (s2\<lparr>events := []\<rparr>))) =
                (if tapPath w (tapIndexToWriteNextFrame s2)
                 then Some (tapIndexToWriteNextFrame s2) else None) \<and>
              tapIndexToWriteNextFrame (snd (publish w (s2\<lparr>events := []\<rparr>))) = 0"
      using pos kept publish_tap[of w "s2\<lparr>events := []\<rparr>"] by simp
  qed
  have part3: "\<forall>w1 q f u.
              write_frame w1 (?s1\<lparr>events := q\<rparr>) = Written f u \<longrightarrow>
              (\<exists>k. 0 < k \<and>
                   (k = N \<or> (\<exists>ev\<in>set q. etype ev = touchend \<or> etype ev = touchcancel)) \<and>
                   frame_tap f = (if tapPath w1 k then Some k else None)) \<and>
              tapIndexToWriteNextFrame u = 0"
  proof (intro allI impI)
    fix w1 q f u
    assume wr: "write_frame w1 (?s1\<lparr>events := q\<rparr>) = Written f u"
    from write_frame_parts[OF wr] obtain r1 r2 where
      r: "resetDeltas (?s1\<lparr>events := q\<rparr>) = Ok r1" "drain w1 q r1 = Ok r2"
         "publish w1 (r2\<lparr>events := []\<rparr>) = (f, u)" by auto
    have t1: "tapIndexToWriteNextFrame r1 = N"
      using resetDeltas_tapIndex(1)[of "?s1\<lparr>events := q\<rparr>"] r(1) i1 by simp
    have pos: "0 < tapIndexToWriteNextFrame r2"
      using drain_tap_positive[of r1 w1 q] r(2) t1 n(2) by simp
    have kept: "tapIndexToWriteNextFrame r2 = N \<or>
               (\<exists>ev\<in>set q. etype ev = touchend \<or> etype ev = touchcancel)"
      using drain_tap_kept_or_lift[OF r(2)] t1 by simp
    have pub: "frame_tap f = (if tapPath w1 (tapIndexToWriteNextFrame r2)
                 then Some (tapIndexToWriteNextFrame r2) else None)"
      "tapIndexToWriteNextFrame u = 0"
      using publish_tap[of w1 "r2\<lparr>events := []\<rparr>"] r(3) pos by simp_all
    show "(\<exists>k. 0 < k \<and>
                   (k = N \<or> (\<exists>ev\<in>set q. etype ev = touchend \<or> etype ev = touchcancel)) \<and>
                   frame_tap f = (if tapPath w1 k then Some k else None)) \<and>
              tapIndexToWriteNextFrame u = 0"
      using pos kept pub by blast
  qed
  have part4: "\<forall>w' t' u u'.
              end_touch w' t' u = Ok u' \<longrightarrow>
              (if isPendingFirstTouch t' u
               then tapIndexToWriteNextFrame u' = tapIndexToWriteNextFrame u
               else tapIndexToWriteNextFrame u' =
                      (if assignments u' = [] \<and> 0 < maxTouchCount (pendingTap u) \<and>
                          (\<exists>t1. startedAt (pendingTap u) = Some t1 \<and> now w' - t1 \<le> 125)
                       then maxTouchCount (pendingTap u) else tapIndexToWriteNextFrame u) \<and>
                    pendingTap u' =
                      (if assignments u' = [] then \<lparr>maxTouchCount = 0, startedAt = None\<rparr>
                       else pendingTap u))"
  proof (intro allI impI)
    fix w' t' u u'
    assume en: "end_touch w' t' u = Ok u'"
    show "if isPendingFirstTouch t' u
               then tapIndexToWriteNextFrame u' = tapIndexToWriteNextFrame u
               else tapIndexToWriteNextFrame u' =
                      (if assignments u' = [] \<and> 0 < maxTouchCount (pendingTap u) \<and>
                          (\<exists>t1. startedAt (pendingTap u) = Some t1 \<and> now w' - t1 \<le> 125)
                       then maxTouchCount (pendingTap u) else tapIndexToWriteNextFrame u) \<and>
                    pendingTap u' =
                      (if assignments u' = [] then \<lparr>maxTouchCount = 0, startedAt = None\<rparr>
                       else pendingTap u)"
    proof (cases "isPendingFirstTouch t' u")
      case True
      then show ?thesis using end_touch_buffered_tap[OF True, of w'] en by simp
    next
      case False
      then show ?thesis using end_touch_tap[OF False en] by simp
    qed
  qed
  have part5: "\<forall>w2 u f' u'.
              tapIndexToWriteNextFrame u = 0 \<longrightarrow>
              (\<forall>ev\<in>set (events u). etype ev = touchstart \<or> etype ev = touchmove) \<longrightarrow>
              write_frame w2 u = Written f' u' \<longrightarrow>
              frame_tap f' = None \<and> tapIndexToWriteNextFrame u' = 0"
    using write_frame_tap by simp
  from e a1 i1 p1 part2 part3 part4 part5 show ?thesis by blast
qed

theorem tap_published_once_witness:
  "ident (touch ((newAssignment touchU MOVE_CURSOR_JOB)
        \<lparr>cursorPose := Some (projectTouch demoEnv touchU), isFirstFrame := Some False\<rparr>)) =
     ident touchU \<and>
   \<not> isPendingFirstTouch touchU touching \<and>
   maxTouchCount (pendingTap touching) = 1 \<and>
   startedAt (pendingTap touching) = Some 50 \<and> now laterEnv - 50 \<le> 125 \<and>
   tapPath laterEnv 1 \<and>
   (\<exists>s1. end_touch laterEnv touchU touching = Ok s1 \<and> assignments s1 = [] \<and>
         tapIndexToWriteNextFrame s1 = 1 \<and>
         pendingTap s1 = \<lparr>maxTouchCount = 0, startedAt = None\<rparr> \<and>
         frame_tap (fst (publish laterEnv (s1\<lparr>events := []\<rparr>))) = Some 1 \<and>
         tapIndexToWriteNextFrame (snd (publish laterEnv (s1\<lparr>events := []\<rparr>))) = 0) \<and>
   \<not> now (demoEnv\<lparr>now := 200\<rparr>) - 50 \<le> 125 \<and>
   (\<exists>u'. end_touch (demoEnv\<lparr>now := 200\<rparr>) touchU touching = Ok u' \<and>
         assignments u' = [] \<and> tapIndexToWriteNextFrame u' = 0 \<and>
         pendingTap u' = \<lparr>maxTouchCount = 0, startedAt = None\<rparr>) \<and>
   (\<exists>f u f' u'.
      write_frame laterEnv (touching\<lparr>events := [eventOf touchend [touchU]]\<rparr>) = Written f u \<and>
      frame_tap f = Some 1 \<and>
      write_frame laterEnv u = Written f' u' \<and> frame_tap f' = None) \<and>
   (\<exists>f u.
      write_frame (demoEnv\<lparr>now := 200\<rparr>) (touching\<lparr>events := [eventOf touchend [touchU]]\<rparr>) =
        Written f u \<and>
      frame_tap f = None)"
proof -
  let ?a = "(newAssignment touchU MOVE_CURSOR_JOB)
        \<lparr>cursorPose := Some (projectTouch demoEnv touchU), isFirstFrame := Some False\<rparr>"
  let ?late = "demoEnv\<lparr>now := 200\<rparr>"
  have h1: "assignments touching = [?a]" by (rule touching_fields(1))
  have h2: "ident (touch ?a) = ident touchU" by simp
  have h3: "\<not> isPendingFirstTouch touchU touching"
    by (simp add: isPendingFirstTouch_def touching_fields)
  have h4: "maxTouchCount (pendingTap touching) = 1" "(0::nat) < 1"
    by (simp_all add: touching_fields)
  have h5: "startedAt (pendingTap touching) = Some 50" "now laterEnv - 50 \<le> 125"
    by (simp_all add: touching_fields laterEnv_def demo_defs)
  have tp: "tapPath laterEnv 1" by (simp add: laterEnv_def demo_defs)
  have late: "\<not> now ?late - 50 \<le> 125" by simp
  have el: "\<exists>u'. end_touch ?late touchU touching = Ok u' \<and> assignments u' = []"
    by (simp add: touching_def device_defs demo_defs)
  from tap_published_once[OF h1 h2 h3 h4 h5] obtain s1 where
    s1: "end_touch laterEnv touchU touching = Ok s1" "assignments s1 = []"
      "tapIndexToWriteNextFrame s1 = 1"
      "pendingTap s1 = \<lparr>maxTouchCount = 0, startedAt = None\<rparr>"
    and p: "\<forall>rest s2.
              drain laterEnv rest s1 = Ok s2 \<longrightarrow>
              0 < tapIndexToWriteNextFrame s2 \<and>
              (tapIndexToWriteNextFrame s2 = 1 \<or>
               (\<exists>ev\<in>set rest. etype ev = touchend \<or> etype ev = touchcancel)) \<and>
              frame_tap (fst (publish laterEnv (s2\<lparr>events := []\<rparr>))) =
                (if tapPath laterEnv (tapIndexToWriteNextFrame s2)
                 then Some (tapIndexToWriteNextFrame s2) else None) \<and>
              tapIndexToWriteNextFrame (snd (publish laterEnv (s2\<lparr>events := []\<rparr>))) = 0"
    and q: "\<forall>w' t' u u'.
              end_touch w' t' u = Ok u' \<longrightarrow>
              (if isPendingFirstTouch t' u
               then tapIndexToWriteNextFrame u' = tapIndexToWriteNextFrame u
               else tapIndexToWriteNextFrame u' =
                      (if assignments u' = [] \<and> 0 < maxTouchCount (pendingTap u) \<and>
                          (\<exists>t1. startedAt (pendingTap u) = Some t1 \<and> now w' - t1 \<le> 125)
                       then maxTouchCount (pendingTap u) else tapIndexToWriteNextFrame u) \<and>
                    pendingTap u' =
                      (if assignments u' = [] then \<lparr>maxTouchCount = 0, startedAt = None\<rparr>
                       else pendingTap u))"
    by blast
  have "drain laterEnv [] s1 = Ok s1" by simp
  with p have "frame_tap (fst (publish laterEnv (s1\<lparr>events := []\<rparr>))) =
                (if tapPath laterEnv (tapIndexToWriteNextFrame s1)
                 then Some (tapIndexToWriteNextFrame s1) else None) \<and>
              tapIndexToWriteNextFrame (snd (publish laterEnv (s1\<lparr>events := []\<rparr>))) = 0"
    by blast
  then have "frame_tap (fst (publish laterEnv (s1\<lparr>events := []\<rparr>))) = Some 1 \<and>
        tapIndexToWriteNextFrame (snd (publish laterEnv (s1\<lparr>events := []\<rparr>))) = 0"
    using s1(3) tp by simp
  with s1 have w1: "\<exists>s1. end_touch laterEnv touchU touching = Ok s1 \<and> assignments s1 = [] \<and>
         tapIndexToWriteNextFrame s1 = 1 \<and>
         pendingTap s1 = \<lparr>maxTouchCount = 0, startedAt = None\<rparr> \<and>
         frame_tap (fst (publish laterEnv (s1\<lparr>events := []\<rparr>))) = Some 1 \<and>
         tapIndexToWriteNextFrame (snd (publish laterEnv (s1\<lparr>events := []\<rparr>))) = 0"
    by blast
  from el obtain u' where u': "end_touch ?late touchU touching = Ok u'" "assignments u' = []"
    by blast
  note qi = q[rule_format, OF u'(1)]
  have "tapIndexToWriteNextFrame u' = 0 \<and>
             pendingTap u' = \<lparr>maxTouchCount = 0, startedAt = None\<rparr>"
    using qi h3 u'(2) by (simp add: touching_fields)
  with u' have w3: "\<exists>u'. end_touch ?late touchU touching = Ok u' \<and>
         assignments u' = [] \<and> tapIndexToWriteNextFrame u' = 0 \<and>
         pendingTap u' = \<lparr>maxTouchCount = 0, startedAt = None\<rparr>"
    by blast
  have w2: "\<exists>f u f' u'.
      write_frame laterEnv (touching\<lparr>events := [eventOf touchend [touchU]]\<rparr>) = Written f u \<and>
      frame_tap f = Some 1 \<and>
      write_frame laterEnv u = Written f' u' \<and> frame_tap f' = None"
    by (simp add: touching_def laterEnv_def device_defs demo_defs)
  have w4: "\<exists>f u.
      write_frame ?late (touching\<lparr>events := [eventOf touchend [touchU]]\<rparr>) = Written f u \<and>
      frame_tap f = None"
    by (simp add: touching_def device_defs demo_defs)
  from h2 h3 h4(1) h5 tp w1 late w3 w2 w4 show ?thesis by blast
qed

subsection \<open>The pinch state along a frame without lifts\<close>

lemma frameStep_same:
  "pinch s' = pinch s \<Longrightarrow>
   jobIsAssigned SECOND_PINCHER_JOB (assignments s') =
     jobIsAssigned SECOND_PINCHER_JOB (assignments s) \<Longrightarrow> frameStep s s'"
  by (simp add: frameStep_def)

lemma frameStep_refl [simp]: "frameStep s s"
  by (simp add: frameStep_same)


lemma second_assigned_snoc:
  "jobIsAssigned SECOND_PINCHER_JOB (as @ [a]) \<longleftrightarrow>
   jobIsAssigned SECOND_PINCHER_JOB as \<or> job a = SECOND_PINCHER_JOB"
  by (auto simp: jobIsAssigned_iff)


lemma takeFirstPincher_second:
  assumes "takeFirstPincher s = Inr (a, s1)"
  shows "pinch s1 = pinch s \<and>
         jobIsAssigned SECOND_PINCHER_JOB (assignments s1) =
         jobIsAssigned SECOND_PINCHER_JOB (assignments s)"
proof (cases "findByJob FIRST_PINCHER_JOB (assignments s)")
  case (Some first)
  then show ?thesis using assms by (simp add: takeFirstPincher_def)
next
  case None
  then obtain cm where cm: "findByJob MOVE_CAMERA_JOB (assignments s) = Some cm"
    using assms by (cases "findByJob MOVE_CAMERA_JOB (assignments s)")
                   (simp_all add: takeFirstPincher_def)
  then have j: "job cm = MOVE_CAMERA_JOB" using findByJob_SomeD by blast
  let ?as1 = "unassign (touch cm) (job cm) (assignments s)"
  obtain as2 where as2: "assign (touch cm) FIRST_PINCHER_JOB ?as1 = Some as2"
    using assms None cm by (cases "assign (touch cm) FIRST_PINCHER_JOB ?as1")
                           (simp_all add: takeFirstPincher_def Let_def)
  then have a2: "as2 = ?as1 @ [newAssignment (touch cm) FIRST_PINCHER_JOB]"
    using assign_SomeD by blast
  have "jobIsAssigned SECOND_PINCHER_JOB ?as1 = jobIsAssigned SECOND_PINCHER_JOB (assignments s)"
    using jobsOf_unassign_other[of SECOND_PINCHER_JOB "job cm" "touch cm" "assignments s"] j
    by (simp add: jobIsAssigned_iff)
  then show ?thesis
    using assms None cm as2 a2
    by (auto simp: takeFirstPincher_def Let_def second_assigned_snoc)
qed



















end
